theory Spec2Isabelle
  imports Main "HOL-Library.AList"
begin

section \<open>Python text primitives used by main.py\<close>

text \<open>
  Python strings are sequences of code points. They are modelled as \<^typ>\<open>string\<close>, each
  \<^typ>\<open>char\<close> standing for the code point of the same number, so the model covers the
  texts whose code points are below 256 (Latin-1); lengths and slices count code points,
  as Python's do. The character classes below are Python's \<^verbatim>\<open>str.isspace\<close> and
  \<^verbatim>\<open>str.isdigit\<close> on that range.
\<close>

definition nl :: char where
  "nl = CHR 0x0A"

definition py_isspace :: "char \<Rightarrow> bool" where
  "py_isspace c =
     (let n = (of_char c :: nat)
      in (9 \<le> n \<and> n \<le> 13) \<or> (28 \<le> n \<and> n \<le> 32) \<or> n = 133 \<or> n = 160)"

definition py_isdigit :: "char \<Rightarrow> bool" where
  "py_isdigit c =
     (let n = (of_char c :: nat)
      in (48 \<le> n \<and> n \<le> 57) \<or> n = 178 \<or> n = 179 \<or> n = 185)"

text \<open>\<^verbatim>\<open>s.strip()\<close>: leading and trailing whitespace removed.\<close>

definition strip :: "string \<Rightarrow> string" where
  "strip s = rev (dropWhile py_isspace (rev (dropWhile py_isspace s)))"

text \<open>\<^verbatim>\<open>s.split(sep)\<close> for a one-character separator: never the empty list.\<close>

fun split :: "char \<Rightarrow> string \<Rightarrow> string list" where
  "split sep [] = [[]]"
| "split sep (c # cs) =
     (if c = sep then [] # split sep cs
      else (case split sep cs of
              [] \<Rightarrow> [[c]]
            | l # ls \<Rightarrow> (c # l) # ls))"

text \<open>\<^verbatim>\<open>s.startswith(p)\<close> and \<^verbatim>\<open>sub in s\<close>.\<close>

definition startswith :: "string \<Rightarrow> string \<Rightarrow> bool" where
  "startswith s p = (take (length p) s = p)"

fun contains :: "string \<Rightarrow> string \<Rightarrow> bool" where
  "contains sub [] = (sub = [])"
| "contains sub (c # cs) = (startswith (c # cs) sub \<or> contains sub cs)"

text \<open>\<^verbatim>\<open>sep.join(parts)\<close>.\<close>

fun join :: "string \<Rightarrow> string list \<Rightarrow> string" where
  "join sep [] = []"
| "join sep [p] = p"
| "join sep (p # q # ps) = p @ sep @ join sep (q # ps)"

section \<open>Question extraction (main.py, lines 149 to 150)\<close>

text \<open>
  The condition of the list comprehension: \<^verbatim>\<open>q.strip() and q.strip()[0].isdigit() and
  ". " in q.strip()[:10]\<close>. The first conjunct guards the index \<^verbatim>\<open>[0]\<close>.
\<close>

definition accepted :: "string \<Rightarrow> bool" where
  "accepted q =
     (case strip q of
        [] \<Rightarrow> False
      | c # cs \<Rightarrow> py_isdigit c \<and> contains ''. '' (take 10 (c # cs)))"

definition extract_questions :: "string \<Rightarrow> string list" where
  "extract_questions content = map strip (filter accepted (split nl content))"

text \<open>
  The shape the specification gives for a question, \<^verbatim>\<open>^<digit>\. .+\<close>: one decimal
  digit, a full stop, a space, and at least one more character.
\<close>

definition numbered_question :: "string \<Rightarrow> bool" where
  "numbered_question s =
     (case s of
        d # p # b # r # rest \<Rightarrow>
          48 \<le> (of_char d :: nat) \<and> (of_char d :: nat) \<le> 57 \<and> p = CHR ''.'' \<and> b = CHR '' ''
          \<and> r \<noteq> nl
      | _ \<Rightarrow> False)"

section \<open>Exceptions\<close>

text \<open>
  Every \<^verbatim>\<open>raise\<close> of the handlers is a value. \<^verbatim>\<open>HTTPException(status_code, detail)\<close>
  carries its status and its detail; the detail is either a literal of the source or
  \<^verbatim>\<open>str(e)\<close> of the exception caught, kept as the exception itself.
\<close>

datatype exn =
    HTTPException nat detail
  | RateLimitExceeded
  | KeyError string
  | IndexError
  | TypeError
  | JSONDecodeError
  | UpstreamError string
  | EvalError
and detail =
    Literal string
  | StrOf exn

section \<open>The cached list: \<^verbatim>\<open>str(questions)\<close> and \<^verbatim>\<open>eval(cached_questions)\<close>\<close>

definition squote :: char where "squote = CHR 0x27"
definition dquote :: char where "dquote = CHR 0x22"
definition backslash :: char where "backslash = CHR 0x5C"
definition tab :: char where "tab = CHR 0x09"
definition cr :: char where "cr = CHR 0x0D"

definition py_isprintable :: "char \<Rightarrow> bool" where
  "py_isprintable c =
     (let n = (of_char c :: nat) in (32 \<le> n \<and> n \<le> 126) \<or> (161 \<le> n \<and> n \<noteq> 173))"

definition hexdigit :: "nat \<Rightarrow> char" where
  "hexdigit n = (if n < 10 then char_of (48 + n) else char_of (87 + n))"

definition hexval :: "char \<Rightarrow> nat option" where
  "hexval c =
     (let n = (of_char c :: nat)
      in if 48 \<le> n \<and> n \<le> 57 then Some (n - 48)
         else if 97 \<le> n \<and> n \<le> 102 then Some (n - 87)
         else if 65 \<le> n \<and> n \<le> 70 then Some (n - 55)
         else None)"

text \<open>
  \<^verbatim>\<open>repr\<close> of a string: single quotes, unless the string has a single quote and no
  double quote; the quote and the backslash escaped, tab, newline and carriage return by
  letter, every other unprintable character as \<^verbatim>\<open>\xhh\<close>.
\<close>

definition repr_quote :: "string \<Rightarrow> char" where
  "repr_quote s = (if squote \<in> set s \<and> dquote \<notin> set s then dquote else squote)"

definition repr_char :: "char \<Rightarrow> char \<Rightarrow> string" where
  "repr_char q c =
     (if c = q \<or> c = backslash then [backslash, c]
      else if c = tab then [backslash, CHR ''t'']
      else if c = nl then [backslash, CHR ''n'']
      else if c = cr then [backslash, CHR ''r'']
      else if \<not> py_isprintable c then
        [backslash, CHR ''x'', hexdigit ((of_char c :: nat) div 16), hexdigit ((of_char c :: nat) mod 16)]
      else [c])"

definition py_repr :: "string \<Rightarrow> string" where
  "py_repr s = (let q = repr_quote s in q # concat (map (repr_char q) s) @ [q])"

text \<open>\<^verbatim>\<open>str\<close> of a list of strings.\<close>

definition py_str_list :: "string list \<Rightarrow> string" where
  "py_str_list xs = ''['' @ join '', '' (map py_repr xs) @ '']''"

text \<open>
  \<^verbatim>\<open>eval\<close> is Python's interpreter. The model reads the expressions the handler
  itself stores: a list display of string literals separated by a comma and a space, with
  the escapes above. On any other text it answers \<^const>\<open>EvalError\<close>, which there stands
  for whatever the interpreter would do; the theorems below only use it on text the handler
  wrote, or under the hypothesis that it returned a list.
\<close>

definition decode_escape :: "string \<Rightarrow> (char \<times> string) option" where
  "decode_escape s =
     (case s of
        [] \<Rightarrow> None
      | e # cs \<Rightarrow>
          if e = backslash \<or> e = squote \<or> e = dquote then Some (e, cs)
          else if e = CHR ''t'' then Some (tab, cs)
          else if e = CHR ''n'' then Some (nl, cs)
          else if e = CHR ''r'' then Some (cr, cs)
          else if e = CHR ''x'' then
            (case cs of
               a # b # cs2 \<Rightarrow>
                 (case hexval a of
                    None \<Rightarrow> None
                  | Some hi \<Rightarrow>
                      (case hexval b of
                         None \<Rightarrow> None
                       | Some lo \<Rightarrow> Some (char_of (16 * hi + lo), cs2)))
             | _ \<Rightarrow> None)
          else None)"

lemma decode_escape_length:
  "decode_escape s = Some (d, r) \<Longrightarrow> length r < length s"
  by (auto simp: decode_escape_def split: list.splits if_splits option.splits)

function string_body :: "char \<Rightarrow> string \<Rightarrow> (string \<times> string) option" where
  "string_body q [] = None"
| "string_body q (c # cs) =
     (if c = q then Some ([], cs)
      else if c = nl then None
      else if c = backslash then
        (case decode_escape cs of
           None \<Rightarrow> None
         | Some (d, cs1) \<Rightarrow> map_option (apfst ((#) d)) (string_body q cs1))
      else map_option (apfst ((#) c)) (string_body q cs))"
  by pat_completeness auto
termination
proof (relation "measure (\<lambda>(q, s). length s)")
  show "wf (measure (\<lambda>(q, s). length s))" by simp
next
  fix q c :: char and cs p d cs1
  assume "decode_escape cs = Some p" and "(d, cs1) = p"
  then have "length cs1 < length cs"
    using decode_escape_length [of cs d cs1] by simp
  then show "((q, cs1), (q, c # cs)) \<in> measure (\<lambda>(q, s). length s)" by simp
next
  fix q c :: char and cs
  show "((q, cs), (q, c # cs)) \<in> measure (\<lambda>(q, s). length s)" by simp
qed

lemma string_body_length:
  "string_body q s = Some (x, rest) \<Longrightarrow> length rest < length s"
proof (induction q s arbitrary: x rest rule: string_body.induct)
  case (1 q)
  then show ?case by simp
next
  case (2 q c cs)
  show ?case
  proof (cases "c = q")
    case True
    with "2.prems" show ?thesis by simp
  next
    case nq: False
    show ?thesis
    proof (cases "c = backslash")
      case True
      with nq "2.prems" obtain d cs1 y where
        de: "decode_escape cs = Some (d, cs1)" and sb: "string_body q cs1 = Some (y, rest)"
        by (auto split: if_splits option.splits)
      from nq True de "2.prems" have "c \<noteq> nl" by (auto split: if_splits)
      with "2.IH"(1) [OF nq _ True de refl sb] have "length rest < length cs1" by simp
      with decode_escape_length [OF de] show ?thesis by simp
    next
      case False
      with nq "2.prems" obtain y where
        sb: "string_body q cs = Some (y, rest)" and "c \<noteq> nl"
        by (auto split: if_splits)
      with "2.IH"(2) [OF nq _ False sb] show ?thesis by simp
    qed
  qed
qed

function list_items :: "string \<Rightarrow> string list option" where
  "list_items s =
     (case s of
        [] \<Rightarrow> None
      | q # cs \<Rightarrow>
          if q = squote \<or> q = dquote then
            (case string_body q cs of
               None \<Rightarrow> None
             | Some (x, rest) \<Rightarrow>
                 if rest = '']'' then Some [x]
                 else if startswith rest '', '' then
                   map_option ((#) x) (list_items (drop 2 rest))
                 else None)
          else None)"
  by pat_completeness auto
termination
proof (relation "measure length")
  show "wf (measure length)" by simp
next
  fix s :: string and q cs p x rest
  assume "s = q # cs" and "string_body q cs = Some p" and "(x, rest) = p"
  then have "length rest < length cs"
    using string_body_length [of q cs x rest] by simp
  then show "(drop 2 rest, s) \<in> measure length"
    using \<open>s = q # cs\<close> by simp
qed

definition py_eval :: "string \<Rightarrow> exn + string list" where
  "py_eval s =
     (case s of
        [] \<Rightarrow> Inl EvalError
      | c # cs \<Rightarrow>
          if c = CHR ''['' then
            (if cs = '']'' then Inr []
             else (case list_items cs of None \<Rightarrow> Inl EvalError | Some xs \<Rightarrow> Inr xs))
          else Inl EvalError)"

section \<open>The collaborators: cache store and completion client\<close>

text \<open>
  Modelled from the spec: the Redis client (\<^verbatim>\<open>redis_client.get\<close>, \<^verbatim>\<open>redis_client.setex\<close>)
  is a library, absent from the repository; the specification describes it as a key-value
  cache with expiry. A key holds a value and the time at which it expires; time is a
  count of seconds. \<^verbatim>\<open>get\<close> answers the value of a live key and \<^verbatim>\<open>None\<close> otherwise.
\<close>

type_synonym redis = "(string \<times> (string \<times> nat)) list"

definition redis_get :: "nat \<Rightarrow> redis \<Rightarrow> string \<Rightarrow> string option" where
  "redis_get now r k =
     (case map_of r k of
        None \<Rightarrow> None
      | Some (v, expires) \<Rightarrow> if now < expires then Some v else None)"

definition redis_setex :: "nat \<Rightarrow> redis \<Rightarrow> string \<Rightarrow> nat \<Rightarrow> string \<Rightarrow> redis" where
  "redis_setex now r k seconds v = AList.update k (v, now + seconds) r"

definition expires_at :: "redis \<Rightarrow> string \<Rightarrow> nat" where
  "expires_at r k = (case map_of r k of None \<Rightarrow> 0 | Some (v, expires) \<Rightarrow> expires)"

text \<open>
  A chat message, and the state the handlers act on: the store, and the log of the
  message lists sent to the completion client (\<^verbatim>\<open>openai.ChatCompletion.create\<close>), one
  entry per call. The client is a parameter \<open>llm\<close> of each handler: it answers the text
  of the first choice, or raises. The model name, the temperature and the token cap are
  the same constants in every call and are left out.
\<close>

record message =
  role :: string
  content :: string

record world =
  store :: redis
  completions :: "message list list"

section \<open>Request models (main.py, lines 91 to 108)\<close>

record JobDescription =
  title :: string
  description :: string

record InterviewRequest =
  job_desc :: JobDescription

text \<open>\<^verbatim>\<open>answers: List[Dict[str, str]]\<close>: each answer is a dictionary, of any keys.\<close>

record InterviewResponse =
  answers :: "(string \<times> string) list list"

definition SYSTEM_PROMPT :: string where
  "SYSTEM_PROMPT = ''You are an experienced technical interviewer conducting interviews for various tech positions. \<newline>Your goal is to assess candidates' technical knowledge, problem-solving abilities, and communication skills.\<newline>Ask relevant technical questions based on the job title and description provided. Focus on both technical depth and soft skills.\<newline>Provide constructive feedback that helps candidates improve.''"

section \<open>generate_questions (main.py, lines 114 to 167)\<close>

text \<open>Decimal \<^verbatim>\<open>str\<close> of an integer, as the f-string formats the hash.\<close>

fun dec :: "nat \<Rightarrow> string" where
  "dec n = (if n < 10 then [char_of (48 + n)] else dec (n div 10) @ [char_of (48 + n mod 10)])"

definition py_str_int :: "int \<Rightarrow> string" where
  "py_str_int i = (if i < 0 then CHR ''-'' # dec (nat (- i)) else dec (nat i))"

text \<open>
  Line 123. \<^verbatim>\<open>hash\<close> is the interpreter's string hash, a parameter \<open>h\<close> of the
  handler. Python salts it per interpreter process, so \<open>h\<close> is the hash of the process
  that serves the request: one function for the life of that process, and another one
  after a restart or in another worker, while the store outlives the process.
\<close>

definition cache_key :: "(string \<Rightarrow> int) \<Rightarrow> JobDescription \<Rightarrow> string" where
  "cache_key h job = ''questions:'' @ py_str_int (h (title job @ description job))"

definition question_messages :: "JobDescription \<Rightarrow> message list" where
  "question_messages job =
     [\<lparr>role = ''system'', content = SYSTEM_PROMPT\<rparr>,
      \<lparr>role = ''user'', content =
         ''Generate exactly 5 relevant interview questions for:\<newline>            Job Title: ''
         @ title job
         @ ''\<newline>            Job Description: ''
         @ description job
         @ ''\<newline>            \<newline>            Focus on both technical skills and soft skills. Make the questions specific to the role.\<newline>            \<newline>            Format each question on a new line, numbered from 1-5.''\<rparr>]"

text \<open>
  The body of the \<^verbatim>\<open>try\<close> (lines 119 to 162). A cached text that is \<^verbatim>\<open>None\<close> or
  empty is falsy and takes the miss path.
\<close>

definition generate_questions_try ::
  "(string \<Rightarrow> int) \<Rightarrow> (message list \<Rightarrow> exn + string) \<Rightarrow> nat \<Rightarrow> InterviewRequest \<Rightarrow> world
     \<Rightarrow> (exn + string list) \<times> world" where
  "generate_questions_try h llm now interview_request w =
     (let job = job_desc interview_request;
          key = cache_key h job;
          cached_questions = redis_get now (store w) key
      in if cached_questions \<noteq> None \<and> cached_questions \<noteq> Some []
         then (py_eval (case cached_questions of Some text \<Rightarrow> text | None \<Rightarrow> []), w)
         else
           (let messages = question_messages job;
                w1 = w\<lparr>completions := completions w @ [messages]\<rparr>
            in case llm messages of
                 Inl e \<Rightarrow> (Inl e, w1)
               | Inr text \<Rightarrow>
                   (let questions = extract_questions text
                    in if length questions \<noteq> 5
                       then (Inl (HTTPException 500
                                   (Literal ''Failed to generate the correct number of questions'')), w1)
                       else (Inr questions,
                             w1\<lparr>store := redis_setex now (store w1) key 3600 (py_str_list questions)\<rparr>))))"

text \<open>
  \<^verbatim>\<open>except Exception as e: raise HTTPException(status_code=500, detail=str(e))\<close>
  (lines 164 to 167) catches every exception of the body, the one of line 155 too.
\<close>

definition generate_questions ::
  "(string \<Rightarrow> int) \<Rightarrow> (message list \<Rightarrow> exn + string) \<Rightarrow> nat \<Rightarrow> InterviewRequest \<Rightarrow> world
     \<Rightarrow> (exn + string list) \<times> world" where
  "generate_questions h llm now interview_request w =
     (case generate_questions_try h llm now interview_request w of
        (Inl e, w') \<Rightarrow> (Inl (HTTPException 500 (StrOf e)), w')
      | (Inr questions, w') \<Rightarrow> (Inr questions, w'))"

section \<open>analyze_responses (main.py, lines 169 to 227)\<close>

text \<open>
  Line 179: one block per answer, \<^verbatim>\<open>resp["question"]\<close> read before \<^verbatim>\<open>resp["answer"]\<close>;
  a missing key raises \<^verbatim>\<open>KeyError\<close>, at the first answer that lacks one.
\<close>

definition dict_get :: "(string \<times> string) list \<Rightarrow> string \<Rightarrow> exn + string" where
  "dict_get d k = (case map_of d k of None \<Rightarrow> Inl (KeyError k) | Some v \<Rightarrow> Inr v)"

definition render_answer :: "(string \<times> string) list \<Rightarrow> exn + string" where
  "render_answer resp =
     (case dict_get resp ''question'' of
        Inl e \<Rightarrow> Inl e
      | Inr q \<Rightarrow>
          (case dict_get resp ''answer'' of
             Inl e \<Rightarrow> Inl e
           | Inr a \<Rightarrow> Inr (''Q: '' @ q @ [nl] @ ''A: '' @ a @ [nl])))"

fun render_all :: "(string \<times> string) list list \<Rightarrow> exn + string list" where
  "render_all [] = Inr []"
| "render_all (resp # rest) =
     (case render_answer resp of
        Inl e \<Rightarrow> Inl e
      | Inr block \<Rightarrow>
          (case render_all rest of
             Inl e \<Rightarrow> Inl e
           | Inr blocks \<Rightarrow> Inr (block # blocks)))"

definition analysis_header :: string where
  "analysis_header = ''Analyze these interview responses:\<newline>\<newline>''"

definition analysis_footer :: string where
  "analysis_footer = ''\<newline>\<newline>Provide comprehensive feedback including:\<newline>1. Technical Depth (Score out of 10)\<newline>2. Communication Clarity (Score out of 10)\<newline>3. Overall Performance (Score out of 10)\<newline>4. Strengths\<newline>5. Areas for Improvement\<newline>6. Specific Recommendations\<newline>\<newline>Format the response as JSON with these keys:\<newline>technical_score, communication_score, overall_score, strengths, improvements, recommendations''"

definition analysis_messages :: "(string \<times> string) list list \<Rightarrow> exn + message list" where
  "analysis_messages resps =
     (case render_all resps of
        Inl e \<Rightarrow> Inl e
      | Inr blocks \<Rightarrow>
          Inr [\<lparr>role = ''system'', content = SYSTEM_PROMPT\<rparr>,
               \<lparr>role = ''user'', content = analysis_header @ join [nl] blocks @ analysis_footer\<rparr>])"

text \<open>
  Lines 206 to 208. \<^verbatim>\<open>feedback.split("\n", 1)[1]\<close> is what follows the first newline
  and raises \<^verbatim>\<open>IndexError\<close> when there is none; \<^verbatim>\<open>feedback.rsplit("\n", 1)[0]\<close> is
  what precedes the last newline, the whole text when there is none.
\<close>

definition fence :: string where
  "fence = ''```''"

definition after_first_newline :: "string \<Rightarrow> exn + string" where
  "after_first_newline s =
     (if nl \<in> set s then Inr (tl (dropWhile (\<lambda>c. c \<noteq> nl) s)) else Inl IndexError)"

definition before_last_newline :: "string \<Rightarrow> string" where
  "before_last_newline s =
     (if nl \<in> set s then rev (tl (dropWhile (\<lambda>c. c \<noteq> nl) (rev s))) else s)"

definition strip_fence :: "string \<Rightarrow> exn + string" where
  "strip_fence feedback =
     (if startswith feedback fence then
        (case after_first_newline feedback of
           Inl e \<Rightarrow> Inl e
         | Inr rest \<Rightarrow> Inr (before_last_newline rest))
      else Inr feedback)"

text \<open>
  The values of \<^verbatim>\<open>json.loads\<close>. Floats are kept opaque. A dictionary is the list of
  its items in insertion order; a lookup finds the first item of a key and an assignment
  to a present key replaces its value in place.
\<close>

typedecl pyfloat

datatype json =
    JNull
  | JBool bool
  | JInt int
  | JFloat pyfloat
  | JStr string
  | JList "json list"
  | JDict "(string \<times> json) list"

text \<open>\<^verbatim>\<open>feedback_json[key]\<close>, read and assigned, with a string key.\<close>

fun getitem :: "json \<Rightarrow> string \<Rightarrow> exn + json" where
  "getitem (JDict items) k = (case map_of items k of None \<Rightarrow> Inl (KeyError k) | Some v \<Rightarrow> Inr v)"
| "getitem _ k = Inl TypeError"

fun setitem :: "json \<Rightarrow> string \<Rightarrow> json \<Rightarrow> exn + json" where
  "setitem (JDict items) k v = Inr (JDict (AList.update k v items))"
| "setitem _ k v = Inl TypeError"

text \<open>Lines 214 to 216: the loop over the three keys, in the order of the source.\<close>

definition list_keys :: "string list" where
  "list_keys = [''strengths'', ''improvements'', ''recommendations'']"

fun wrap_strings :: "string list \<Rightarrow> json \<Rightarrow> exn + json" where
  "wrap_strings [] feedback_json = Inr feedback_json"
| "wrap_strings (key # keys) feedback_json =
     (case getitem feedback_json key of
        Inl e \<Rightarrow> Inl e
      | Inr (JStr s) \<Rightarrow>
          (case setitem feedback_json key (JList [JStr s]) of
             Inl e \<Rightarrow> Inl e
           | Inr updated \<Rightarrow> wrap_strings keys updated)
      | Inr _ \<Rightarrow> wrap_strings keys feedback_json)"

text \<open>
  The inner \<^verbatim>\<open>try\<close> (lines 204 to 222). \<^verbatim>\<open>json.loads\<close> and \<^verbatim>\<open>json.dumps\<close> are the
  library's, parameters \<open>loads\<close> and \<open>dumps\<close>; every exception becomes an
  \<^verbatim>\<open>HTTPException\<close> of status 500.
\<close>

definition parse_feedback ::
  "(string \<Rightarrow> exn + json) \<Rightarrow> (json \<Rightarrow> string) \<Rightarrow> string \<Rightarrow> exn + string" where
  "parse_feedback loads dumps feedback =
     (case strip_fence feedback of
        Inl e \<Rightarrow> Inl (HTTPException 500 (StrOf e))
      | Inr text \<Rightarrow>
          (case loads text of
             Inl e \<Rightarrow> Inl (HTTPException 500 (StrOf e))
           | Inr feedback_json \<Rightarrow>
               (case wrap_strings list_keys feedback_json of
                  Inl e \<Rightarrow> Inl (HTTPException 500 (StrOf e))
                | Inr normalized \<Rightarrow> Inr (dumps normalized))))"

text \<open>The outer \<^verbatim>\<open>try\<close> (lines 173 to 227): its handler wraps every exception again.\<close>

definition analyze_responses_try ::
  "(string \<Rightarrow> exn + json) \<Rightarrow> (json \<Rightarrow> string) \<Rightarrow> (message list \<Rightarrow> exn + string)
     \<Rightarrow> InterviewResponse \<Rightarrow> world \<Rightarrow> (exn + string) \<times> world" where
  "analyze_responses_try loads dumps llm responses w =
     (case analysis_messages (answers responses) of
        Inl e \<Rightarrow> (Inl e, w)
      | Inr messages \<Rightarrow>
          (let w1 = w\<lparr>completions := completions w @ [messages]\<rparr>
           in case llm messages of
                Inl e \<Rightarrow> (Inl e, w1)
              | Inr feedback \<Rightarrow> (parse_feedback loads dumps feedback, w1)))"

definition analyze_responses ::
  "(string \<Rightarrow> exn + json) \<Rightarrow> (json \<Rightarrow> string) \<Rightarrow> (message list \<Rightarrow> exn + string)
     \<Rightarrow> InterviewResponse \<Rightarrow> world \<Rightarrow> (exn + string) \<times> world" where
  "analyze_responses loads dumps llm responses w =
     (case analyze_responses_try loads dumps llm responses w of
        (Inl e, w') \<Rightarrow> (Inl (HTTPException 500 (StrOf e)), w')
      | (Inr feedback, w') \<Rightarrow> (Inr feedback, w'))"

text \<open>The status code of the HTTP response to an outcome.\<close>

fun status_code :: "exn + 'a \<Rightarrow> nat" where
  "status_code (Inr _) = 200"
| "status_code (Inl (HTTPException code _)) = code"
| "status_code (Inl RateLimitExceeded) = 429"
| "status_code (Inl _) = 500"

section \<open>States of the service\<close>

text \<open>
  The states the service itself produces: an empty store and log at first, then changed
  only by the two handlers, whatever the process (its hash), the model's answers, the
  time and the requests.
\<close>

inductive reachable :: "world \<Rightarrow> bool" where
  initial: "reachable \<lparr>store = [], completions = []\<rparr>"
| served: "reachable w \<Longrightarrow> generate_questions h llm now interview_request w = (r, w')
           \<Longrightarrow> reachable w'"
| analyzed: "reachable w \<Longrightarrow> analyze_responses loads dumps llm responses w = (r, w')
           \<Longrightarrow> reachable w'"

section \<open>Rate limiting (main.py, lines 79 to 81, 115 and 170)\<close>

text \<open>
  Modelled from the spec: the limiter (\<^verbatim>\<open>slowapi.Limiter\<close>, keyed by
  \<^verbatim>\<open>get_remote_address\<close>) is a library, absent from the repository. The specification
  describes a fixed-window counter per client address, five requests a minute, that
  rejects a request over the limit at once, before any work. A window opens at the first
  request counted for a key and closes 60 seconds later; each decorated route counts for
  itself, so the key is the client address with the route's name.
\<close>

type_synonym limiter = "((string \<times> string) \<times> (nat \<times> nat)) list"

definition window_open :: "nat \<Rightarrow> limiter \<Rightarrow> string \<times> string \<Rightarrow> bool" where
  "window_open now lim key =
     (case map_of lim key of
        None \<Rightarrow> False
      | Some (n, expires) \<Rightarrow> now < expires)"

definition hit :: "nat \<Rightarrow> limiter \<Rightarrow> string \<times> string \<Rightarrow> bool \<times> limiter" where
  "hit now lim key =
     (case map_of lim key of
        None \<Rightarrow> (True, AList.update key (1, now + 60) lim)
      | Some (n, expires) \<Rightarrow>
          if now < expires then (n + 1 \<le> 5, AList.update key (n + 1, expires) lim)
          else (True, AList.update key (1, now + 60) lim))"

text \<open>
  The decorator \<^verbatim>\<open>@limiter.limit("5/minute")\<close> around a handler: the handler runs only
  when the limiter lets the request through.
\<close>

definition limit_5_per_minute ::
  "string \<Rightarrow> (world \<Rightarrow> (exn + 'a) \<times> world) \<Rightarrow> nat \<Rightarrow> string \<Rightarrow> limiter \<times> world
     \<Rightarrow> (exn + 'a) \<times> (limiter \<times> world)" where
  "limit_5_per_minute route handler now address s =
     (case hit now (fst s) (address, route) of
        (False, lim') \<Rightarrow> (Inl RateLimitExceeded, (lim', snd s))
      | (True, lim') \<Rightarrow>
          (case handler (snd s) of (r, w') \<Rightarrow> (r, (lim', w'))))"

definition post_generate_questions ::
  "(string \<Rightarrow> int) \<Rightarrow> (message list \<Rightarrow> exn + string) \<Rightarrow> nat \<Rightarrow> string \<Rightarrow> InterviewRequest
     \<Rightarrow> limiter \<times> world \<Rightarrow> (exn + string list) \<times> (limiter \<times> world)" where
  "post_generate_questions h llm now address interview_request =
     limit_5_per_minute ''generate_questions''
       (generate_questions h llm now interview_request) now address"

definition post_analyze_responses ::
  "(string \<Rightarrow> exn + json) \<Rightarrow> (json \<Rightarrow> string) \<Rightarrow> (message list \<Rightarrow> exn + string) \<Rightarrow> nat
     \<Rightarrow> string \<Rightarrow> InterviewResponse \<Rightarrow> limiter \<times> world \<Rightarrow> (exn + string) \<times> (limiter \<times> world)" where
  "post_analyze_responses loads dumps llm now address responses =
     limit_5_per_minute ''analyze_responses''
       (analyze_responses loads dumps llm responses) now address"

text \<open>Requests served one after the other, each on the state the one before left.\<close>

fun run :: "('s \<Rightarrow> 'r \<times> 's) list \<Rightarrow> 's \<Rightarrow> 'r list \<times> 's" where
  "run [] s = ([], s)"
| "run (call # calls) s =
     (case call s of (r, s') \<Rightarrow> (case run calls s' of (rs, s'') \<Rightarrow> (r # rs, s'')))"

section \<open>Properties stated in the words of the specification\<close>

text \<open>
  The shape of a line that the filter of lines 149 to 150 keeps, said of its stripped
  text: not empty, a digit first, and a full stop followed by a space that begins within
  the first nine characters, so that both lie within the first ten.
\<close>

definition kept_shape :: "string \<Rightarrow> bool" where
  "kept_shape t =
     (t \<noteq> [] \<and> py_isdigit (hd t)
      \<and> (\<exists>i \<in> {0..<9}. Suc i < length t \<and> t ! i = CHR ''.'' \<and> t ! Suc i = CHR '' ''))"

text \<open>
  Normalisation of one list-valued field, as the specification words it: a single string
  becomes a one-element sequence, anything else stays.
\<close>

definition wrapped :: "json \<Rightarrow> json" where
  "wrapped v = (case v of JStr s \<Rightarrow> JList [JStr s] | _ \<Rightarrow> v)"

text \<open>
  The FeedbackReport of the specification: an object whose three scores are integers
  from 0 to 10 and whose strengths, improvements and recommendations are sequences of
  strings.
\<close>

definition int_score :: "json option \<Rightarrow> bool" where
  "int_score v = (case v of Some (JInt n) \<Rightarrow> 0 \<le> n \<and> n \<le> 10 | _ \<Rightarrow> False)"

definition is_string :: "json \<Rightarrow> bool" where
  "is_string v = (case v of JStr s \<Rightarrow> True | _ \<Rightarrow> False)"

definition string_list :: "json option \<Rightarrow> bool" where
  "string_list v = (case v of Some (JList xs) \<Rightarrow> list_all is_string xs | _ \<Rightarrow> False)"

definition feedback_report :: "json \<Rightarrow> bool" where
  "feedback_report j =
     (case j of
        JDict items \<Rightarrow>
          int_score (map_of items ''technical_score'')
          \<and> int_score (map_of items ''communication_score'')
          \<and> int_score (map_of items ''overall_score'')
          \<and> string_list (map_of items ''strengths'')
          \<and> string_list (map_of items ''improvements'')
          \<and> string_list (map_of items ''recommendations'')
      | _ \<Rightarrow> False)"

text \<open>One pair of the transcript: the question, then the answer.\<close>

definition qa_block :: "string \<times> string \<Rightarrow> string" where
  "qa_block qa = ''Q: '' @ fst qa @ [nl] @ ''A: '' @ snd qa @ [nl]"

section \<open>Reading back what \<^verbatim>\<open>str\<close> wrote\<close>

lemma hexval_hexdigit: "n < 16 \<Longrightarrow> hexval (hexdigit n) = Some n"
  by (auto simp: hexval_def hexdigit_def Let_def)

lemma of_char_lt: "(of_char (c::char) :: nat) < 256"
  by (cases c) simp

lemma decode_hex:
  "decode_escape (CHR ''x'' # hexdigit ((of_char c :: nat) div 16) # hexdigit ((of_char c :: nat) mod 16) # rest) = Some (c, rest)"
proof -
  have "(of_char c :: nat) div 16 < 16" using of_char_lt [of c] by arith
  then show ?thesis
    by (simp add: decode_escape_def hexval_hexdigit backslash_def squote_def dquote_def)
qed

lemma quote_cases: "repr_quote s = squote \<or> repr_quote s = dquote"
  by (simp add: repr_quote_def)

lemma string_body_repr_char:
  assumes "q = squote \<or> q = dquote"
  shows "string_body q (repr_char q c @ s) = map_option (apfst ((#) c)) (string_body q s)"
proof -
  have nlq: "nl \<noteq> q" "backslash \<noteq> q"
    using assms by (auto simp: nl_def squote_def dquote_def backslash_def)
  consider (esc) "c = q \<or> c = backslash" | (t) "c = tab" | (n) "c = nl" | (r) "c = cr"
    | (x) "c \<noteq> q" "c \<noteq> backslash" "c \<noteq> tab" "c \<noteq> nl" "c \<noteq> cr" "\<not> py_isprintable c"
    | (p) "c \<noteq> q" "c \<noteq> backslash" "c \<noteq> tab" "c \<noteq> nl" "c \<noteq> cr" "py_isprintable c"
    by blast
  then show ?thesis
  proof cases
    case esc
    then have "repr_char q c = [backslash, c]" by (simp add: repr_char_def)
    moreover have "decode_escape (c # s) = Some (c, s)"
      using esc assms by (auto simp: decode_escape_def)
    ultimately show ?thesis using nlq by (auto simp: nl_def backslash_def)
  next
    case t
    then have "repr_char q c = [backslash, CHR ''t'']"
      using assms by (auto simp: repr_char_def tab_def squote_def dquote_def backslash_def)
    moreover have "decode_escape (CHR ''t'' # s) = Some (tab, s)"
      by (simp add: decode_escape_def backslash_def squote_def dquote_def)
    ultimately show ?thesis using nlq t by (auto simp: nl_def backslash_def)
  next
    case n
    then have "repr_char q c = [backslash, CHR ''n'']"
      using assms by (auto simp: repr_char_def nl_def tab_def squote_def dquote_def backslash_def)
    moreover have "decode_escape (CHR ''n'' # s) = Some (nl, s)"
      by (simp add: decode_escape_def backslash_def squote_def dquote_def)
    ultimately show ?thesis using nlq n by (auto simp: nl_def backslash_def)
  next
    case r
    then have "repr_char q c = [backslash, CHR ''r'']"
      using assms by (auto simp: repr_char_def cr_def nl_def tab_def squote_def dquote_def backslash_def)
    moreover have "decode_escape (CHR ''r'' # s) = Some (cr, s)"
      by (simp add: decode_escape_def backslash_def squote_def dquote_def)
    ultimately show ?thesis using nlq r by (auto simp: nl_def backslash_def)
  next
    case x
    then have "repr_char q c = [backslash, CHR ''x'', hexdigit ((of_char c :: nat) div 16), hexdigit ((of_char c :: nat) mod 16)]"
      by (simp add: repr_char_def)
    then show ?thesis using nlq decode_hex [of c s] by (auto simp: nl_def backslash_def)
  next
    case p
    then have "repr_char q c = [c]" by (simp add: repr_char_def)
    then show ?thesis using p by simp
  qed
qed

lemma string_body_repr:
  assumes "q = squote \<or> q = dquote"
  shows "string_body q (concat (map (repr_char q) s) @ q # rest) = Some (s, rest)"
  using assms by (induction s) (simp_all add: string_body_repr_char)


declare list_items.simps [simp del]

lemma list_items_repr:
  "list_items (py_repr x @ tail) =
     (if tail = '']'' then Some [x]
      else if startswith tail '', '' then map_option ((#) x) (list_items (drop 2 tail))
      else None)"
proof -
  have "py_repr x @ tail = repr_quote x # (concat (map (repr_char (repr_quote x)) x) @ repr_quote x # tail)"
    by (simp add: py_repr_def Let_def)
  then show ?thesis
    using quote_cases [of x] string_body_repr [OF quote_cases, of x x tail]
    by (subst list_items.simps) auto
qed

lemma list_items_join:
  "xs \<noteq> [] \<Longrightarrow> list_items (join '', '' (map py_repr xs) @ '']'') = Some xs"
proof (induction xs rule: induct_list012)
  case 1
  then show ?case by simp
next
  case (2 x)
  then show ?case using list_items_repr [of x "'']''"] by simp
next
  case (3 x y zs)
  have "list_items (py_repr x @ ('', '' @ join '', '' (map py_repr (y # zs)) @ '']''))
        = map_option ((#) x) (list_items (join '', '' (map py_repr (y # zs)) @ '']''))"
    by (subst list_items_repr) (simp add: startswith_def)
  with 3 show ?case by simp
qed

lemma py_repr_not_bracket: "py_repr x @ tail \<noteq> '']''"
  using quote_cases [of x] by (auto simp: py_repr_def Let_def squote_def dquote_def)

lemma join_repr_not_bracket: "xs \<noteq> [] \<Longrightarrow> join '', '' (map py_repr xs) @ '']'' \<noteq> '']''"
proof (induction xs rule: induct_list012)
  case 1
  then show ?case by simp
next
  case (2 x)
  then show ?case using py_repr_not_bracket [of x "'']''"] by simp
next
  case (3 x y zs)
  then show ?case
    using py_repr_not_bracket [of x "'', '' @ join '', '' (map py_repr (y # zs)) @ '']''"] by simp
qed

lemma py_eval_str_list: "py_eval (py_str_list xs) = Inr xs"
proof (cases "xs = []")
  case True
  then show ?thesis by (simp add: py_eval_def py_str_list_def)
next
  case False
  then show ?thesis
    using list_items_join [of xs] join_repr_not_bracket [of xs]
    by (simp add: py_eval_def py_str_list_def)
qed

section \<open>The line filter\<close>

lemma contains_dot_space:
  "contains ''. '' t \<longleftrightarrow> (\<exists>i. Suc i < length t \<and> t ! i = CHR ''.'' \<and> t ! Suc i = CHR '' '')"
proof (induction t)
  case Nil
  then show ?case by simp
next
  case (Cons c cs)
  have here: "startswith (c # cs) ''. '' \<longleftrightarrow> (Suc 0 < length (c # cs) \<and> (c # cs) ! 0 = CHR ''.'' \<and> (c # cs) ! Suc 0 = CHR '' '')"
    by (cases cs) (auto simp: startswith_def)
  show ?case
  proof
    assume "contains ''. '' (c # cs)"
    then consider "startswith (c # cs) ''. ''" | "contains ''. '' cs" by auto
    then show "\<exists>i. Suc i < length (c # cs) \<and> (c # cs) ! i = CHR ''.'' \<and> (c # cs) ! Suc i = CHR '' ''"
    proof cases
      case 1
      with here show ?thesis by blast
    next
      case 2
      with Cons.IH obtain i where "Suc i < length cs" "cs ! i = CHR ''.''" "cs ! Suc i = CHR '' ''"
        by blast
      then have "Suc (Suc i) < length (c # cs) \<and> (c # cs) ! Suc i = CHR ''.'' \<and> (c # cs) ! Suc (Suc i) = CHR '' ''"
        by simp
      then show ?thesis by blast
    qed
  next
    assume "\<exists>i. Suc i < length (c # cs) \<and> (c # cs) ! i = CHR ''.'' \<and> (c # cs) ! Suc i = CHR '' ''"
    then obtain i where i: "Suc i < length (c # cs)" "(c # cs) ! i = CHR ''.''" "(c # cs) ! Suc i = CHR '' ''"
      by blast
    show "contains ''. '' (c # cs)"
    proof (cases i)
      case 0
      with i here show ?thesis by simp
    next
      case (Suc j)
      with i have "Suc j < length cs \<and> cs ! j = CHR ''.'' \<and> cs ! Suc j = CHR '' ''" by simp
      with Cons.IH have "contains ''. '' cs" by blast
      then show ?thesis by simp
    qed
  qed
qed

lemma contains_take_10:
  "contains ''. '' (take 10 t) \<longleftrightarrow> (\<exists>i \<in> {0..<9}. Suc i < length t \<and> t ! i = CHR ''.'' \<and> t ! Suc i = CHR '' '')"
proof -
  have "contains ''. '' (take 10 t) \<longleftrightarrow>
        (\<exists>i. Suc i < length (take 10 t) \<and> take 10 t ! i = CHR ''.'' \<and> take 10 t ! Suc i = CHR '' '')"
    by (rule contains_dot_space)
  also have "\<dots> \<longleftrightarrow> (\<exists>i. i < 9 \<and> Suc i < length t \<and> t ! i = CHR ''.'' \<and> t ! Suc i = CHR '' '')"
    by (intro ex_cong1) auto
  finally show ?thesis by auto
qed

lemma accepted_kept_shape: "accepted l \<longleftrightarrow> kept_shape (strip l)"
proof (cases "strip l")
  case Nil
  then show ?thesis by (simp add: accepted_def kept_shape_def)
next
  case (Cons c cs)
  then show ?thesis
    using contains_take_10 [of "c # cs"] by (simp add: accepted_def kept_shape_def)
qed

lemma numbered_question_kept_shape: "numbered_question t \<Longrightarrow> kept_shape t"
proof -
  assume nq: "numbered_question t"
  then obtain d r rest where t: "t = d # CHR ''.'' # CHR '' '' # r # rest"
    and d: "48 \<le> (of_char d :: nat)" "(of_char d :: nat) \<le> 57"
    by (auto simp: numbered_question_def split: list.splits)
  have "(1::nat) \<in> {0..<9}" by simp
  moreover have "Suc 1 < length t \<and> t ! 1 = CHR ''.'' \<and> t ! Suc 1 = CHR '' ''" using t by simp
  ultimately have "\<exists>i \<in> {0..<9}. Suc i < length t \<and> t ! i = CHR ''.'' \<and> t ! Suc i = CHR '' ''"
    by blast
  then show ?thesis using t d by (simp add: kept_shape_def py_isdigit_def)
qed

section \<open>Outcomes of generate_questions\<close>

lemma generate_questions_try_cases:
  fixes h llm now req w
  defines "job \<equiv> job_desc req"
  defines "key \<equiv> cache_key h job"
  defines "w1 \<equiv> w\<lparr>completions := completions w @ [question_messages job]\<rparr>"
  obtains
    (hit) v where "redis_get now (store w) key = Some v" "v \<noteq> []"
      "generate_questions_try h llm now req w = (py_eval v, w)"
  | (upstream) e where "redis_get now (store w) key = None \<or> redis_get now (store w) key = Some []"
      "llm (question_messages job) = Inl e"
      "generate_questions_try h llm now req w = (Inl e, w1)"
  | (mismatch) raw where "redis_get now (store w) key = None \<or> redis_get now (store w) key = Some []"
      "llm (question_messages job) = Inr raw" "length (extract_questions raw) \<noteq> 5"
      "generate_questions_try h llm now req w =
         (Inl (HTTPException 500 (Literal ''Failed to generate the correct number of questions'')), w1)"
  | (fresh) raw where "redis_get now (store w) key = None \<or> redis_get now (store w) key = Some []"
      "llm (question_messages job) = Inr raw" "length (extract_questions raw) = 5"
      "generate_questions_try h llm now req w =
         (Inr (extract_questions raw),
          w1\<lparr>store := redis_setex now (store w) key 3600 (py_str_list (extract_questions raw))\<rparr>)"
proof (cases "redis_get now (store w) key")
  case None
  show ?thesis
  proof (cases "llm (question_messages job)")
    case (Inl e)
    with None show ?thesis
      by (intro upstream [of e]) (simp_all add: generate_questions_try_def Let_def job_def key_def w1_def)
  next
    case (Inr raw)
    show ?thesis
    proof (cases "length (extract_questions raw) = 5")
      case True
      with None Inr show ?thesis
        by (intro fresh [of raw]) (simp_all add: generate_questions_try_def Let_def job_def key_def w1_def)
    next
      case False
      with None Inr show ?thesis
        by (intro mismatch [of raw]) (simp_all add: generate_questions_try_def Let_def job_def key_def w1_def)
    qed
  qed
next
  case (Some v)
  show ?thesis
  proof (cases "v = []")
    case False
    with Some show ?thesis
      by (intro hit [of v]) (simp_all add: generate_questions_try_def Let_def job_def key_def)
  next
    case True
    show ?thesis
    proof (cases "llm (question_messages job)")
      case (Inl e)
      with Some True show ?thesis
        by (intro upstream [of e]) (simp_all add: generate_questions_try_def Let_def job_def key_def w1_def)
    next
      case (Inr raw)
      show ?thesis
      proof (cases "length (extract_questions raw) = 5")
        case l: True
        with Some True Inr show ?thesis
          by (intro fresh [of raw]) (simp_all add: generate_questions_try_def Let_def job_def key_def w1_def)
      next
        case False
        with Some True Inr show ?thesis
          by (intro mismatch [of raw]) (simp_all add: generate_questions_try_def Let_def job_def key_def w1_def)
      qed
    qed
  qed
qed


lemma py_str_list_not_empty: "py_str_list xs \<noteq> []"
  by (simp add: py_str_list_def)

lemma generate_questions_cases:
  fixes h llm now req w
  defines "job \<equiv> job_desc req"
  defines "key \<equiv> cache_key h job"
  defines "w1 \<equiv> w\<lparr>completions := completions w @ [question_messages job]\<rparr>"
  obtains
    (hit) v qs where "redis_get now (store w) key = Some v" "v \<noteq> []" "py_eval v = Inr qs"
      "generate_questions h llm now req w = (Inr qs, w)"
  | (hit_error) v e where "redis_get now (store w) key = Some v" "v \<noteq> []" "py_eval v = Inl e"
      "generate_questions h llm now req w = (Inl (HTTPException 500 (StrOf e)), w)"
  | (upstream) e where "redis_get now (store w) key = None \<or> redis_get now (store w) key = Some []"
      "llm (question_messages job) = Inl e"
      "generate_questions h llm now req w = (Inl (HTTPException 500 (StrOf e)), w1)"
  | (mismatch) raw where "redis_get now (store w) key = None \<or> redis_get now (store w) key = Some []"
      "llm (question_messages job) = Inr raw" "length (extract_questions raw) \<noteq> 5"
      "generate_questions h llm now req w =
         (Inl (HTTPException 500 (StrOf (HTTPException 500
            (Literal ''Failed to generate the correct number of questions'')))), w1)"
  | (fresh) raw where "redis_get now (store w) key = None \<or> redis_get now (store w) key = Some []"
      "llm (question_messages job) = Inr raw" "length (extract_questions raw) = 5"
      "generate_questions h llm now req w =
         (Inr (extract_questions raw),
          w1\<lparr>store := redis_setex now (store w) key 3600 (py_str_list (extract_questions raw))\<rparr>)"
proof (cases h llm now req w rule: generate_questions_try_cases)
  case (hit v)
  show ?thesis
  proof (cases "py_eval v")
    case (Inl e)
    with hit show ?thesis
      by (intro hit_error [of v e]) (simp_all add: generate_questions_def job_def key_def)
  next
    case (Inr qs)
    with hit show ?thesis
      by (intro that(1) [of v qs]) (simp_all add: generate_questions_def job_def key_def)
  qed
next
  case (upstream e)
  then show ?thesis
    by (intro that(3) [of e]) (simp_all add: generate_questions_def job_def key_def w1_def)
next
  case (mismatch raw)
  then show ?thesis
    by (intro that(4) [of raw]) (simp_all add: generate_questions_def job_def key_def w1_def)
next
  case (fresh raw)
  then show ?thesis
    by (intro that(5) [of raw]) (simp_all add: generate_questions_def job_def key_def w1_def)
qed

lemma redis_get_Some:
  "redis_get now r k = Some v \<longleftrightarrow> (\<exists>e. map_of r k = Some (v, e) \<and> now < e)"
  by (auto simp: redis_get_def split: option.splits)

lemma map_of_setex:
  "map_of (redis_setex now r k ttl v) k' = (if k' = k then Some (v, now + ttl) else map_of r k')"
  by (simp add: redis_setex_def update_conv')

lemma analyze_responses_store:
  "analyze_responses loads dumps llm responses w = (r, w') \<Longrightarrow> store w' = store w"
  by (auto simp: analyze_responses_def analyze_responses_try_def Let_def split: sum.splits)

lemma reachable_five:
  "reachable w \<Longrightarrow> map_of (store w) k = Some (v, e) \<Longrightarrow> \<exists>qs. length qs = 5 \<and> v = py_str_list qs"
proof (induction arbitrary: k v e rule: reachable.induct)
  case initial
  then show ?case by simp
next
  case (served w h llm now req r w')
  show ?case
  proof (cases h llm now req w rule: generate_questions_cases)
    case (fresh raw)
    with served.hyps(2) have
      "store w' = redis_setex now (store w) (cache_key h (job_desc req)) 3600 (py_str_list (extract_questions raw))"
      by auto
    with served.prems served.IH fresh(3) show ?thesis
      by (auto simp: map_of_setex split: if_splits)
  qed (use served in auto)
next
  case (analyzed w loads dumps llm responses r w')
  from analyze_responses_store [OF analyzed.hyps(2)] analyzed.prems analyzed.IH
  show ?case by simp
qed

lemma expires_at_Some: "map_of r k = Some (v, e) \<Longrightarrow> expires_at r k = e"
  by (simp add: expires_at_def)

lemma success_leaves_entry:
  assumes "generate_questions h llm now req w = (Inr qs, w1)"
  shows "\<exists>v. map_of (store w1) (cache_key h (job_desc req))
               = Some (v, expires_at (store w1) (cache_key h (job_desc req)))
             \<and> v \<noteq> [] \<and> py_eval v = Inr qs
             \<and> now < expires_at (store w1) (cache_key h (job_desc req))
             \<and> (completions w1 \<noteq> completions w \<longrightarrow>
                  v = py_str_list qs \<and> expires_at (store w1) (cache_key h (job_desc req)) = now + 3600)"
proof (cases h llm now req w rule: generate_questions_cases)
  case (hit v qs')
  with assms have eq: "qs' = qs" "w1 = w" by simp_all
  from hit(1) obtain e where "map_of (store w) (cache_key h (job_desc req)) = Some (v, e)" "now < e"
    by (auto simp: redis_get_Some)
  with hit eq show ?thesis by (auto simp: expires_at_Some)
next
  case (fresh raw)
  with assms have eq: "qs = extract_questions raw"
    and w1: "w1 = w\<lparr>completions := completions w @ [question_messages (job_desc req)],
                   store := redis_setex now (store w) (cache_key h (job_desc req)) 3600
                              (py_str_list (extract_questions raw))\<rparr>"
    by auto
  have "map_of (store w1) (cache_key h (job_desc req)) = Some (py_str_list qs, now + 3600)"
    by (simp add: w1 eq map_of_setex)
  then show ?thesis
    by (auto simp: expires_at_Some py_str_list_not_empty py_eval_str_list)
qed (use assms in auto)

lemma hit_replays:
  assumes first: "generate_questions h llm1 t1 req w = (Inr qs, w1)"
    and key: "cache_key h (job_desc req2) = cache_key h (job_desc req)"
    and same: "map_of (store w2) (cache_key h (job_desc req)) = map_of (store w1) (cache_key h (job_desc req))"
    and live: "t2 < expires_at (store w1) (cache_key h (job_desc req))"
  shows "generate_questions h llm2 t2 req2 w2 = (Inr qs, w2)"
proof -
  from success_leaves_entry [OF first] obtain v where
    v: "map_of (store w1) (cache_key h (job_desc req))
          = Some (v, expires_at (store w1) (cache_key h (job_desc req)))"
      "v \<noteq> []" "py_eval v = Inr qs"
    by blast
  with live key same have "redis_get t2 (store w2) (cache_key h (job_desc req2)) = Some v"
    by (simp add: redis_get_def)
  with v show ?thesis
    by (simp add: generate_questions_def generate_questions_try_def Let_def)
qed

lemma entry_outlives_other_requests:
  assumes "map_of (store w) k = Some (v, e)" "v \<noteq> []" "now < e"
    and "generate_questions h llm now req w = (r, w')"
  shows "map_of (store w') k = Some (v, e)"
proof (cases h llm now req w rule: generate_questions_cases)
  case (fresh raw)
  from fresh(1) assms(1,2,3) have "cache_key h (job_desc req) \<noteq> k"
    by (auto simp: redis_get_def)
  with fresh(4) assms(1,4) show ?thesis
    by (auto simp: map_of_setex)
qed (use assms in auto)

text \<open>
  Within one process, that is with one hash for both requests: after a success the same
  request before the expiry of its entry is answered from the cache, and so is a request
  whose title and description concatenate to the same string.
\<close>

lemma same_process_hit_replays:
  assumes "generate_questions h llm1 t1 req w = (Inr qs, w1)"
  shows "(\<forall>t2 llm2. t2 < expires_at (store w1) (cache_key h (job_desc req))
            \<longrightarrow> generate_questions h llm2 t2 req w1 = (Inr qs, w1))
       \<and> (\<forall>t2 llm2 w2.
            map_of (store w2) (cache_key h (job_desc req)) = map_of (store w1) (cache_key h (job_desc req))
            \<and> t2 < expires_at (store w1) (cache_key h (job_desc req))
            \<longrightarrow> generate_questions h llm2 t2 req w2 = (Inr qs, w2))
       \<and> t1 < expires_at (store w1) (cache_key h (job_desc req))
       \<and> (completions w1 \<noteq> completions w \<longrightarrow>
            expires_at (store w1) (cache_key h (job_desc req)) = t1 + 3600
            \<and> redis_get t1 (store w1) (cache_key h (job_desc req)) = Some (py_str_list qs))
       \<and> py_eval (py_str_list qs) = Inr qs"
  using hit_replays [OF assms refl] success_leaves_entry [OF assms]
  by (auto simp: py_eval_str_list redis_get_def)

lemma same_process_equal_concatenation:
  assumes "title j1 @ description j1 = title j2 @ description j2"
  shows "cache_key h j1 = cache_key h j2
       \<and> (\<forall>llm1 llm2 t1 t2 w qs w1.
            generate_questions h llm1 t1 \<lparr>job_desc = j1\<rparr> w = (Inr qs, w1)
            \<and> t2 < expires_at (store w1) (cache_key h j1)
            \<longrightarrow> generate_questions h llm2 t2 \<lparr>job_desc = j2\<rparr> w1 = (Inr qs, w1))"
proof -
  have k: "cache_key h j1 = cache_key h j2"
    using assms by (simp add: cache_key_def)
  show ?thesis
  proof (intro conjI allI impI)
    show "cache_key h j1 = cache_key h j2" by (rule k)
  next
    fix llm1 llm2 t1 t2 w qs w1
    assume a: "generate_questions h llm1 t1 \<lparr>job_desc = j1\<rparr> w = (Inr qs, w1)
               \<and> t2 < expires_at (store w1) (cache_key h j1)"
    show "generate_questions h llm2 t2 \<lparr>job_desc = j2\<rparr> w1 = (Inr qs, w1)"
      using hit_replays [of h llm1 t1 "\<lparr>job_desc = j1\<rparr>" w qs w1 "\<lparr>job_desc = j2\<rparr>" w1 t2 llm2] a k
      by simp
  qed
qed

text \<open>
  With another hash the key is another one: a request changes the store at its own key
  only, and a request whose key has no live entry calls the model.
\<close>

lemma other_key_untouched:
  assumes "generate_questions h llm now req w = (r, w1)" "k \<noteq> cache_key h (job_desc req)"
  shows "map_of (store w1) k = map_of (store w) k"
proof (cases h llm now req w rule: generate_questions_cases)
  case (fresh raw)
  with assms show ?thesis by (auto simp: map_of_setex)
qed (use assms in auto)

lemma other_hash_misses:
  assumes first: "generate_questions h1 llm1 t1 req w = (r, w1)"
    and differ: "cache_key h2 (job_desc req) \<noteq> cache_key h1 (job_desc req)"
    and none: "redis_get t2 (store w) (cache_key h2 (job_desc req)) = None"
  shows "completions (snd (generate_questions h2 llm2 t2 req w1))
           = completions w1 @ [question_messages (job_desc req)]"
proof -
  from other_key_untouched [OF first differ] none
  have miss: "redis_get t2 (store w1) (cache_key h2 (job_desc req)) = None"
    by (simp add: redis_get_def)
  show ?thesis
    by (cases h2 llm2 t2 req w1 rule: generate_questions_cases) (use miss in auto)
qed

section \<open>Outcomes of analyze_responses\<close>

lemma wrapped_idem: "wrapped (wrapped v) = wrapped v"
  by (cases v) (simp_all add: wrapped_def)

lemma wrap_strings_dict:
  "\<forall>k \<in> set ks. map_of items k \<noteq> None \<Longrightarrow>
   \<exists>items'. wrap_strings ks (JDict items) = Inr (JDict items')
     \<and> map fst items' = map fst items
     \<and> (\<forall>k. map_of items' k = (if k \<in> set ks then map_option wrapped (map_of items k) else map_of items k))"
proof (induction ks arbitrary: items)
  case Nil
  then show ?case by simp
next
  case (Cons key keys)
  then obtain v where v: "map_of items key = Some v" by auto
  then have mem: "key \<in> fst ` set items" by (metis map_of_eq_None_iff option.distinct(1))
  show ?case
  proof (cases "\<exists>s. v = JStr s")
    case True
    then obtain s where s: "v = JStr s" by blast
    let ?items1 = "AList.update key (JList [JStr s]) items"
    have m1: "map_of ?items1 = (map_of items)(key \<mapsto> JList [JStr s])"
      by (rule update_conv')
    have "\<forall>k \<in> set keys. map_of ?items1 k \<noteq> None"
      using Cons.prems by (simp add: m1)
    from Cons.IH [OF this] obtain items' where
      i: "wrap_strings keys (JDict ?items1) = Inr (JDict items')"
        "map fst items' = map fst ?items1"
        "\<forall>k. map_of items' k = (if k \<in> set keys then map_option wrapped (map_of ?items1 k) else map_of ?items1 k)"
      by blast
    have step: "wrap_strings (key # keys) (JDict items) = Inr (JDict items')"
      using v s i(1) by simp
    have keys_eq: "map fst items' = map fst items"
      using i(2) mem by (simp add: update_keys)
    have "\<forall>k. map_of items' k = (if k \<in> set (key # keys) then map_option wrapped (map_of items k) else map_of items k)"
      using i(3) v s by (auto simp: m1 wrapped_def)
    with step keys_eq show ?thesis by blast
  next
    case False
    then have w: "wrapped v = v" by (cases v) (simp_all add: wrapped_def)
    have "\<forall>k \<in> set keys. map_of items k \<noteq> None" using Cons.prems by simp
    from Cons.IH [OF this] obtain items' where
      i: "wrap_strings keys (JDict items) = Inr (JDict items')"
        "map fst items' = map fst items"
        "\<forall>k. map_of items' k = (if k \<in> set keys then map_option wrapped (map_of items k) else map_of items k)"
      by blast
    have step: "wrap_strings (key # keys) (JDict items) = Inr (JDict items')"
      using v False i(1) by (cases v) simp_all
    have "\<forall>k. map_of items' k = (if k \<in> set (key # keys) then map_option wrapped (map_of items k) else map_of items k)"
      using i(3) v w by auto
    with step i(2) show ?thesis by blast
  qed
qed

lemma wrap_strings_not_dict:
  "\<forall>items. fj \<noteq> JDict items \<Longrightarrow> wrap_strings (key # keys) fj = Inl TypeError"
  by (cases fj) simp_all

lemma wrap_strings_missing:
  "map_of items key = None \<Longrightarrow> key \<in> set ks \<Longrightarrow> \<exists>k \<in> set ks. wrap_strings ks (JDict items) = Inl (KeyError k)"
proof (induction ks arbitrary: items)
  case Nil
  then show ?case by simp
next
  case (Cons k ks)
  show ?case
  proof (cases "map_of items k")
    case None
    then show ?thesis by simp
  next
    case (Some v)
    with Cons.prems have ne: "key \<noteq> k" and mem: "key \<in> set ks" by auto
    show ?thesis
    proof (cases "\<exists>s. v = JStr s")
      case True
      then obtain s where s: "v = JStr s" by blast
      have "map_of (AList.update k (JList [JStr s]) items) key = None"
        using Cons.prems(1) ne by (simp add: update_conv')
      from Cons.IH [OF this mem] Some s show ?thesis by auto
    next
      case False
      from Cons.IH [OF Cons.prems(1) mem] obtain k' where
        "k' \<in> set ks" "wrap_strings ks (JDict items) = Inl (KeyError k')" by blast
      with Some False show ?thesis by (cases v) auto
    qed
  qed
qed

lemma wrap_strings_success_iff:
  "(\<exists>out. wrap_strings (key # keys) fj = Inr out)
   \<longleftrightarrow> (\<exists>items. fj = JDict items \<and> (\<forall>k \<in> set (key # keys). map_of items k \<noteq> None))"
proof
  assume "\<exists>out. wrap_strings (key # keys) fj = Inr out"
  then obtain out where out: "wrap_strings (key # keys) fj = Inr out" by blast
  then obtain items where fj: "fj = JDict items"
    using wrap_strings_not_dict [of fj key keys] by force
  have "\<forall>k \<in> set (key # keys). map_of items k \<noteq> None"
  proof (rule ccontr)
    assume "\<not> (\<forall>k \<in> set (key # keys). map_of items k \<noteq> None)"
    then obtain k where "k \<in> set (key # keys)" "map_of items k = None" by blast
    from wrap_strings_missing [OF this(2) this(1)] out fj show False by auto
  qed
  with fj show "\<exists>items. fj = JDict items \<and> (\<forall>k \<in> set (key # keys). map_of items k \<noteq> None)" by blast
next
  assume "\<exists>items. fj = JDict items \<and> (\<forall>k \<in> set (key # keys). map_of items k \<noteq> None)"
  then obtain items where "fj = JDict items" "\<forall>k \<in> set (key # keys). map_of items k \<noteq> None" by blast
  with wrap_strings_dict [of "key # keys" items] show "\<exists>out. wrap_strings (key # keys) fj = Inr out"
    by blast
qed


lemma dropWhile_upto:
  "x \<notin> set a \<Longrightarrow> dropWhile (\<lambda>c. c \<noteq> x) (a @ x # b) = x # b"
  by (induction a) auto

lemma after_first_newline_line:
  "nl \<notin> set a \<Longrightarrow> after_first_newline (a @ nl # b) = Inr b"
  by (simp add: after_first_newline_def dropWhile_upto)

lemma before_last_newline_line:
  "nl \<notin> set c \<Longrightarrow> before_last_newline (b @ nl # c) = b"
  using dropWhile_upto [of nl "rev c" "rev b"] by (simp add: before_last_newline_def)

lemma startswith_append:
  "startswith a p \<Longrightarrow> startswith (a @ b) p"
proof -
  assume "startswith a p"
  then have t: "take (length p) a = p" by (simp add: startswith_def)
  then have "length (take (length p) a) = length p" by simp
  then have "length p \<le> length a" by simp
  with t show ?thesis by (simp add: startswith_def)
qed

lemma strip_fence_fenced:
  assumes "startswith opening fence" "nl \<notin> set opening" "nl \<notin> set closing"
  shows "strip_fence (opening @ nl # body @ nl # closing) = Inr body"
proof -
  have "startswith (opening @ nl # body @ nl # closing) fence"
    using assms(1) by (rule startswith_append)
  with assms show ?thesis
    by (simp add: strip_fence_def after_first_newline_line before_last_newline_line)
qed

lemma split_line: "sep \<notin> set a \<Longrightarrow> split sep a = [a]"
  by (induction a) auto

lemma split_first: "sep \<notin> set a \<Longrightarrow> split sep (a @ sep # b) = a # split sep b"
  by (induction a) auto

lemma split_not_Nil: "split sep s \<noteq> []"
  by (induction s) (auto split: list.splits)

lemma split_middle: "split sep (b @ sep # c) = split sep b @ split sep c"
proof (induction b)
  case Nil
  then show ?case by simp
next
  case (Cons x b)
  then show ?case using split_not_Nil [of sep b] by (auto split: list.splits)
qed

lemma fenced_lines:
  assumes "nl \<notin> set opening" "nl \<notin> set closing"
  shows "split nl (opening @ nl # body @ nl # closing) = opening # split nl body @ [closing]"
  using assms by (simp add: split_first split_middle split_line)

lemma analyze_responses_called:
  assumes "analysis_messages (answers responses) = Inr messages" "llm messages = Inr feedback"
  shows "analyze_responses loads dumps llm responses w =
           ((case parse_feedback loads dumps feedback of
               Inl e \<Rightarrow> Inl (HTTPException 500 (StrOf e))
             | Inr out \<Rightarrow> Inr out),
            w\<lparr>completions := completions w @ [messages]\<rparr>)"
  using assms
  by (simp add: analyze_responses_def analyze_responses_try_def Let_def split: sum.splits)

lemma analyze_responses_500:
  "(\<exists>out. fst (analyze_responses loads dumps llm responses w) = Inr out)
   \<or> (\<exists>d. fst (analyze_responses loads dumps llm responses w) = Inl (HTTPException 500 d))"
  by (auto simp: analyze_responses_def analyze_responses_try_def Let_def split: sum.splits prod.splits)

lemma parse_feedback_Inr:
  "parse_feedback loads dumps feedback = Inr out \<longleftrightarrow>
     (\<exists>txt fj normalized. strip_fence feedback = Inr txt \<and> loads txt = Inr fj
        \<and> wrap_strings list_keys fj = Inr normalized \<and> out = dumps normalized)"
  by (auto simp: parse_feedback_def split: sum.splits)

lemma analyze_responses_Inr:
  "fst (analyze_responses loads dumps llm responses w) = Inr out \<longleftrightarrow>
     (\<exists>messages feedback. analysis_messages (answers responses) = Inr messages
        \<and> llm messages = Inr feedback \<and> parse_feedback loads dumps feedback = Inr out)"
  by (auto simp: analyze_responses_def analyze_responses_try_def Let_def split: sum.splits prod.splits)

lemma list_keys_dict:
  "wrap_strings list_keys fj = Inr normalized \<Longrightarrow>
   \<exists>items items'. fj = JDict items \<and> normalized = JDict items'
     \<and> (\<forall>k \<in> set list_keys. map_of items k \<noteq> None)
     \<and> map fst items' = map fst items
     \<and> (\<forall>k. map_of items' k = (if k \<in> set list_keys then map_option wrapped (map_of items k) else map_of items k))"
proof -
  assume a: "wrap_strings list_keys fj = Inr normalized"
  then have "\<exists>out. wrap_strings (''strengths'' # [''improvements'', ''recommendations'']) fj = Inr out"
    by (auto simp: list_keys_def)
  then obtain items where fj: "fj = JDict items"
    and present: "\<forall>k \<in> set list_keys. map_of items k \<noteq> None"
    unfolding wrap_strings_success_iff list_keys_def by blast
  from wrap_strings_dict [OF present] a fj show ?thesis
    using present by auto
qed

lemma not_string_wrapped: "\<not> is_string (wrapped v)"
  by (cases v) (simp_all add: wrapped_def is_string_def)

lemma render_all_pairs:
  "list_all2 (\<lambda>resp qa. map_of resp ''question'' = Some (fst qa) \<and> map_of resp ''answer'' = Some (snd qa))
     resps pairs \<Longrightarrow> render_all resps = Inr (map qa_block pairs)"
  by (induction rule: list_all2_induct)
     (simp_all add: render_answer_def dict_get_def qa_block_def)

lemma join_pick:
  "join sep (as @ x # bs) =
     (if as = [] then [] else join sep as @ sep) @ x @ (if bs = [] then [] else sep @ join sep bs)"
proof (induction as rule: induct_list012)
  case 1
  then show ?case by (cases bs) simp_all
next
  case (2 a)
  then show ?case by (cases bs) simp_all
next
  case (3 a b cs)
  then show ?case by simp
qed

lemma join_order:
  assumes "i < j" "j < length xs"
  shows "\<exists>pre mid post. join sep xs = pre @ xs ! i @ mid @ xs ! j @ post"
proof -
  from assms have i: "i < length xs" by simp
  let ?r = "drop (Suc i) xs"
  have xs: "xs = take i xs @ xs ! i # ?r"
    using i by (rule id_take_nth_drop)
  have j': "j - Suc i < length ?r" using assms by simp
  have rj: "?r ! (j - Suc i) = xs ! j" using assms by simp
  have r: "?r = take (j - Suc i) ?r @ xs ! j # drop (Suc (j - Suc i)) ?r"
    using id_take_nth_drop [OF j'] rj by simp
  have ne: "?r \<noteq> []" using j' by auto
  obtain p where 1: "join sep xs = p @ xs ! i @ sep @ join sep ?r"
    using join_pick [of sep "take i xs" "xs ! i" ?r] xs ne by metis
  obtain q t where 2: "join sep ?r = q @ xs ! j @ t"
    using join_pick [of sep "take (j - Suc i) ?r" "xs ! j" "drop (Suc (j - Suc i)) ?r"] r by metis
  have "join sep xs = p @ xs ! i @ (sep @ q) @ xs ! j @ t"
    by (simp add: 1 2)
  then show ?thesis by blast
qed

lemma analyze_responses_log:
  "analysis_messages (answers responses) = Inr messages \<Longrightarrow>
   completions (snd (analyze_responses loads dumps llm responses w)) = completions w @ [messages]"
  by (simp add: analyze_responses_def analyze_responses_try_def Let_def split: sum.splits)

text \<open>
  A fenced reply that ends with its closing line is stripped to its body and parsed as
  the body is; one that ends with a newline keeps the closing line.
\<close>

lemma fence_without_trailing_newline:
  assumes "startswith opening fence" and "nl \<notin> set opening"
    and "nl \<notin> set closing" and "\<not> startswith body fence"
  shows "split nl (opening @ nl # body @ nl # closing) = opening # split nl body @ [closing]
       \<and> strip_fence (opening @ nl # body @ nl # closing) = Inr body
       \<and> strip_fence body = Inr body
       \<and> parse_feedback loads dumps (opening @ nl # body @ nl # closing) = parse_feedback loads dumps body
       \<and> (\<forall>llm1 llm2 responses w messages.
            analysis_messages (answers responses) = Inr messages
            \<and> llm1 messages = Inr (opening @ nl # body @ nl # closing)
            \<and> llm2 messages = Inr body
            \<longrightarrow> analyze_responses loads dumps llm1 responses w = analyze_responses loads dumps llm2 responses w)"
proof -
  have f: "strip_fence (opening @ nl # body @ nl # closing) = Inr body"
    using assms(1,2,3) by (rule strip_fence_fenced)
  have u: "strip_fence body = Inr body"
    using assms(4) by (simp add: strip_fence_def)
  have p: "parse_feedback loads dumps (opening @ nl # body @ nl # closing) = parse_feedback loads dumps body"
    by (simp add: parse_feedback_def f u)
  have a: "\<forall>llm1 llm2 responses w messages.
            analysis_messages (answers responses) = Inr messages
            \<and> llm1 messages = Inr (opening @ nl # body @ nl # closing)
            \<and> llm2 messages = Inr body
            \<longrightarrow> analyze_responses loads dumps llm1 responses w = analyze_responses loads dumps llm2 responses w"
    by (auto simp: analyze_responses_called p)
  from fenced_lines [OF assms(2,3)] f u p a show ?thesis by blast
qed

lemma strip_fence_trailing_newline:
  assumes "startswith opening fence" "nl \<notin> set opening"
  shows "strip_fence (opening @ nl # body @ nl # closing @ [nl]) = Inr (body @ nl # closing)"
proof -
  have s: "startswith (opening @ nl # body @ nl # closing @ [nl]) fence"
    using assms(1) by (rule startswith_append)
  have "before_last_newline ((body @ nl # closing) @ nl # []) = body @ nl # closing"
    by (rule before_last_newline_line) simp
  then have "before_last_newline (body @ nl # closing @ [nl]) = body @ nl # closing"
    by simp
  with s assms(2) show ?thesis
    by (simp add: strip_fence_def after_first_newline_line)
qed

section \<open>Lines and stripping\<close>

lemma join_split: "join [sep] (split sep s) = s"
proof (induction s)
  case Nil
  then show ?case by simp
next
  case (Cons c cs)
  show ?case
  proof (cases "c = sep")
    case True
    with Cons show ?thesis by (cases "split sep cs") simp_all
  next
    case False
    show ?thesis
    proof (cases "split sep cs")
      case Nil
      then show ?thesis using split_not_Nil [of sep cs] by simp
    next
      case (Cons l ls)
      with False \<open>join [sep] (split sep cs) = cs\<close> show ?thesis
        by (cases ls) auto
    qed
  qed
qed

lemma split_lines_have_no_sep: "l \<in> set (split sep s) \<Longrightarrow> sep \<notin> set l"
  by (induction s arbitrary: l) (auto split: if_splits list.splits)

lemma strip_no_edge_space:
  "strip s = c # cs \<Longrightarrow> \<not> py_isspace c \<and> \<not> py_isspace (last (c # cs))"
proof -
  assume a: "strip s = c # cs"
  let ?d = "dropWhile py_isspace s"
  from a have r: "dropWhile py_isspace (rev ?d) = rev (c # cs)"
    by (metis rev_rev_ident strip_def)
  then have "rev (c # cs) \<noteq> []" by simp
  with r have "\<not> py_isspace (hd (rev (c # cs)))"
    by (metis hd_dropWhile)
  moreover have "hd (rev (c # cs)) = last (c # cs)"
    by (rule hd_rev)
  ultimately have l: "\<not> py_isspace (last (c # cs))"
    by simp
  have "set (rev (c # cs)) \<subseteq> set (rev ?d)"
    by (metis r set_dropWhileD subsetI)
  then have cd: "c \<in> set ?d" by auto
  from r have "rev ?d = takeWhile py_isspace (rev ?d) @ rev (c # cs)"
    by (metis takeWhile_dropWhile_id)
  then have "?d = (c # cs) @ rev (takeWhile py_isspace (rev ?d))"
    by (metis rev_append rev_rev_ident)
  then have "hd ?d = c" by (metis append_Cons list.sel(1))
  moreover have "?d \<noteq> []" using cd by (cases ?d) simp_all
  ultimately have "\<not> py_isspace c" by (metis hd_dropWhile)
  with l show ?thesis by simp
qed

section \<open>The limiter's window\<close>

lemma limit_opens:
  assumes "\<not> window_open now lim (address, route)"
  shows "\<exists>lim'. limit_5_per_minute route handler now address (lim, w)
                  = (fst (handler w), (lim', snd (handler w)))
               \<and> map_of lim' (address, route) = Some (1, now + 60)"
  using assms
  by (auto simp: limit_5_per_minute_def hit_def window_open_def update_conv'
           split: option.splits prod.splits)

lemma limit_counts:
  assumes "map_of lim (address, route) = Some (n, expires)" "now < expires"
  shows "\<exists>lim'. limit_5_per_minute route handler now address (lim, w)
                  = (if n < 5 then (fst (handler w), (lim', snd (handler w)))
                     else (Inl RateLimitExceeded, (lim', w)))
               \<and> map_of lim' (address, route) = Some (n + 1, expires)"
  using assms
  by (auto simp: limit_5_per_minute_def hit_def update_conv' split: prod.splits)

lemma six_limited:
  assumes fresh: "\<not> window_open t1 lim (address, route)"
    and t: "t2 < t1 + 60" "t3 < t1 + 60" "t4 < t1 + 60" "t5 < t1 + 60" "t6 < t1 + 60"
  shows "\<exists>lim'. run [limit_5_per_minute route h1 t1 address, limit_5_per_minute route h2 t2 address,
                     limit_5_per_minute route h3 t3 address, limit_5_per_minute route h4 t4 address,
                     limit_5_per_minute route h5 t5 address, limit_5_per_minute route h6 t6 address]
                  (lim, w)
               = ([fst (h1 w),
                   fst (h2 (snd (h1 w))),
                   fst (h3 (snd (h2 (snd (h1 w))))),
                   fst (h4 (snd (h3 (snd (h2 (snd (h1 w))))))),
                   fst (h5 (snd (h4 (snd (h3 (snd (h2 (snd (h1 w))))))))),
                   Inl RateLimitExceeded],
                  (lim', snd (h5 (snd (h4 (snd (h3 (snd (h2 (snd (h1 w)))))))))))"
proof -
  let ?k = "(address, route)"
  let ?w1 = "snd (h1 w)"
  let ?w2 = "snd (h2 ?w1)"
  let ?w3 = "snd (h3 ?w2)"
  let ?w4 = "snd (h4 ?w3)"
  let ?w5 = "snd (h5 ?w4)"
  from limit_opens [OF fresh, of h1 w] obtain l1 where
    1: "limit_5_per_minute route h1 t1 address (lim, w) = (fst (h1 w), (l1, ?w1))"
    and m1: "map_of l1 ?k = Some (1, t1 + 60)" by blast
  from limit_counts [OF m1 t(1), of h2 ?w1] obtain l2 where
    2: "limit_5_per_minute route h2 t2 address (l1, ?w1) = (fst (h2 ?w1), (l2, ?w2))"
    and m2: "map_of l2 ?k = Some (2, t1 + 60)" by auto
  from limit_counts [OF m2 t(2), of h3 ?w2] obtain l3 where
    3: "limit_5_per_minute route h3 t3 address (l2, ?w2) = (fst (h3 ?w2), (l3, ?w3))"
    and m3: "map_of l3 ?k = Some (3, t1 + 60)" by auto
  from limit_counts [OF m3 t(3), of h4 ?w3] obtain l4 where
    4: "limit_5_per_minute route h4 t4 address (l3, ?w3) = (fst (h4 ?w3), (l4, ?w4))"
    and m4: "map_of l4 ?k = Some (4, t1 + 60)" by auto
  from limit_counts [OF m4 t(4), of h5 ?w4] obtain l5 where
    5: "limit_5_per_minute route h5 t5 address (l4, ?w4) = (fst (h5 ?w4), (l5, ?w5))"
    and m5: "map_of l5 ?k = Some (5, t1 + 60)" by auto
  from limit_counts [OF m5 t(5), of h6 ?w5] obtain l6 where
    6: "limit_5_per_minute route h6 t6 address (l5, ?w5) = (Inl RateLimitExceeded, (l6, ?w5))"
    by auto
  show ?thesis
    by (rule exI [of _ l6]) (simp add: 1 2 3 4 5 6)
qed

section \<open>Claims about generate_questions\<close>

text \<open>
  C1. From every store the service itself has produced, and for every request, hash,
  model answer and time, \<^const>\<open>generate_questions\<close> answers a list of exactly five
  questions or fails with an \<^verbatim>\<open>HTTPException\<close> of status 500. On the miss path with
  an answer of the model, the handler makes that one call and no other; when the lines it
  keeps are not five it raises, the store unchanged, and when they are five it answers
  those lines as they are and caches them.
\<close>

theorem generate_questions_five_or_500:
  assumes "reachable w"
  shows "((\<exists>qs. fst (generate_questions h llm now req w) = Inr qs \<and> length qs = 5)
          \<or> (\<exists>d. fst (generate_questions h llm now req w) = Inl (HTTPException 500 d)))
       \<and> (\<forall>raw. (redis_get now (store w) (cache_key h (job_desc req)) = None
                  \<or> redis_get now (store w) (cache_key h (job_desc req)) = Some [])
               \<and> llm (question_messages (job_desc req)) = Inr raw
             \<longrightarrow> generate_questions h llm now req w =
                   (if length (extract_questions raw) = 5
                    then (Inr (extract_questions raw),
                          \<lparr>store = redis_setex now (store w) (cache_key h (job_desc req)) 3600
                                     (py_str_list (extract_questions raw)),
                           completions = completions w @ [question_messages (job_desc req)]\<rparr>)
                    else (Inl (HTTPException 500 (StrOf (HTTPException 500
                               (Literal ''Failed to generate the correct number of questions'')))),
                          \<lparr>store = store w,
                           completions = completions w @ [question_messages (job_desc req)]\<rparr>)))"
proof (intro conjI allI impI)
  show "(\<exists>qs. fst (generate_questions h llm now req w) = Inr qs \<and> length qs = 5)
        \<or> (\<exists>d. fst (generate_questions h llm now req w) = Inl (HTTPException 500 d))"
  proof (cases h llm now req w rule: generate_questions_cases)
    case (hit v qs)
    from hit(1) obtain e where "map_of (store w) (cache_key h (job_desc req)) = Some (v, e)"
      by (auto simp: redis_get_Some)
    with reachable_five [OF assms] obtain qs' where "length qs' = 5" "v = py_str_list qs'"
      by blast
    with hit(3) have "length qs = 5" by (simp add: py_eval_str_list)
    with hit(4) show ?thesis by simp
  qed simp_all
next
  fix raw
  assume miss: "(redis_get now (store w) (cache_key h (job_desc req)) = None
                  \<or> redis_get now (store w) (cache_key h (job_desc req)) = Some [])
               \<and> llm (question_messages (job_desc req)) = Inr raw"
  then show "generate_questions h llm now req w =
                   (if length (extract_questions raw) = 5
                    then (Inr (extract_questions raw),
                          \<lparr>store = redis_setex now (store w) (cache_key h (job_desc req)) 3600
                                     (py_str_list (extract_questions raw)),
                           completions = completions w @ [question_messages (job_desc req)]\<rparr>)
                    else (Inl (HTTPException 500 (StrOf (HTTPException 500
                               (Literal ''Failed to generate the correct number of questions'')))),
                          \<lparr>store = store w,
                           completions = completions w @ [question_messages (job_desc req)]\<rparr>))"
    by (cases h llm now req w rule: generate_questions_cases) auto
qed

theorem generate_questions_five_or_500_witness:
  "reachable \<lparr>store = [], completions = []\<rparr>
   \<and> generate_questions (\<lambda>s. 7) (\<lambda>m. Inr ''1. a?\<newline>2. b?\<newline>3. c?\<newline>Good luck. Bye'') 0
         \<lparr>job_desc = \<lparr>title = ''SRE'', description = ''On call''\<rparr>\<rparr> \<lparr>store = [], completions = []\<rparr>
       = (Inl (HTTPException 500 (StrOf (HTTPException 500
                 (Literal ''Failed to generate the correct number of questions'')))),
          \<lparr>store = [],
           completions = [question_messages \<lparr>title = ''SRE'', description = ''On call''\<rparr>]\<rparr>)"
proof -
  have r: "reachable \<lparr>store = [], completions = []\<rparr>"
    by (rule reachable.initial)
  have m: "redis_get 0 (store \<lparr>store = [], completions = []\<rparr>)
             (cache_key (\<lambda>s. 7) (job_desc \<lparr>job_desc = \<lparr>title = ''SRE'', description = ''On call''\<rparr>\<rparr>)) = None"
    by (simp add: redis_get_def)
  have n: "length (extract_questions ''1. a?\<newline>2. b?\<newline>3. c?\<newline>Good luck. Bye'') \<noteq> 5"
    by code_simp
  from generate_questions_five_or_500 [OF r, of "\<lambda>s. 7"
      "\<lambda>m. Inr ''1. a?\<newline>2. b?\<newline>3. c?\<newline>Good luck. Bye''" 0
      "\<lparr>job_desc = \<lparr>title = ''SRE'', description = ''On call''\<rparr>\<rparr>"] m n r
  show ?thesis by simp
qed

text \<open>
  C2, as the code has it. The filter keeps, in the order of the response and stripped of
  surrounding whitespace, exactly the lines whose stripped text is not empty, begins with
  a digit and has a full stop followed by a space within its first ten characters. Every
  line of the shape digit, full stop, space, text is therefore kept, and every string
  kept has the shape above; the full stop need not follow the first digit at once.
\<close>

theorem extract_questions_keeps:
  "extract_questions raw = map strip (filter (\<lambda>l. kept_shape (strip l)) (split nl raw))
   \<and> (\<forall>l \<in> set (split nl raw). numbered_question (strip l) \<longrightarrow> strip l \<in> set (extract_questions raw))
   \<and> (\<forall>t \<in> set (extract_questions raw). kept_shape t)"
proof -
  have a: "accepted = (\<lambda>l. kept_shape (strip l))"
    by (rule ext) (rule accepted_kept_shape)
  have 1: "extract_questions raw = map strip (filter (\<lambda>l. kept_shape (strip l)) (split nl raw))"
    by (simp add: extract_questions_def a)
  have 2: "\<forall>l \<in> set (split nl raw). numbered_question (strip l) \<longrightarrow> strip l \<in> set (extract_questions raw)"
    using numbered_question_kept_shape by (auto simp: 1)
  have 3: "\<forall>t \<in> set (extract_questions raw). kept_shape t"
    by (auto simp: 1)
  from 1 2 3 show ?thesis by blast
qed

theorem extract_questions_keeps_witness:
  "'' 1. Why Rust? '' \<in> set (split nl ''Sure:\<newline> 1. Why Rust? '')
   \<and> numbered_question (strip '' 1. Why Rust? '')
   \<and> strip '' 1. Why Rust? '' \<in> set (extract_questions ''Sure:\<newline> 1. Why Rust? '')
   \<and> kept_shape ''1. Why Rust?''"
proof -
  have l: "'' 1. Why Rust? '' \<in> set (split nl ''Sure:\<newline> 1. Why Rust? '')"
    by code_simp
  have n: "numbered_question (strip '' 1. Why Rust? '')"
    by code_simp
  have s: "strip '' 1. Why Rust? '' = ''1. Why Rust?''"
    by code_simp
  from extract_questions_keeps [of "''Sure:\<newline> 1. Why Rust? ''"] l n
  have m: "strip '' 1. Why Rust? '' \<in> set (extract_questions ''Sure:\<newline> 1. Why Rust? '')"
    by blast
  moreover from extract_questions_keeps [of "''Sure:\<newline> 1. Why Rust? ''"] m
  have "kept_shape (strip '' 1. Why Rust? '')"
    by blast
  ultimately show ?thesis using l n s by simp
qed

text \<open>
  C2, as the specification words it, fails: a line with a two-digit ordinal is kept and
  counted, and it does not have the shape digit, full stop, space, text.
\<close>

theorem two_digit_ordinal_counterexample:
  "extract_questions ''10. Tell me about caching'' = [''10. Tell me about caching'']
   \<and> \<not> numbered_question ''10. Tell me about caching''"
  by code_simp

text \<open>
  C3 fails on the code when the two requests are served by different interpreter
  processes inside the hour: the entry written by the first process stays in the store,
  but the second process has another hash of the same job text, here 8 instead of 7. The
  identical request, 100 seconds after the first succeeded, finds nothing under its key:
  it calls the model a second time, answers other questions and writes a second entry.
\<close>

theorem restarted_process_misses_cache:
  "fst (generate_questions (\<lambda>s. 7) (\<lambda>m. Inr ''1. a?\<newline>2. b?\<newline>3. c?\<newline>4. d?\<newline>5. e?'') 100
         \<lparr>job_desc = \<lparr>title = ''SRE'', description = ''On call''\<rparr>\<rparr> \<lparr>store = [], completions = []\<rparr>)
     = Inr [''1. a?'', ''2. b?'', ''3. c?'', ''4. d?'', ''5. e?'']
   \<and> fst (generate_questions (\<lambda>s. 8) (\<lambda>m. Inr ''1. v?\<newline>2. w?\<newline>3. x?\<newline>4. y?\<newline>5. z?'') 200
         \<lparr>job_desc = \<lparr>title = ''SRE'', description = ''On call''\<rparr>\<rparr>
         (snd (generate_questions (\<lambda>s. 7) (\<lambda>m. Inr ''1. a?\<newline>2. b?\<newline>3. c?\<newline>4. d?\<newline>5. e?'') 100
            \<lparr>job_desc = \<lparr>title = ''SRE'', description = ''On call''\<rparr>\<rparr> \<lparr>store = [], completions = []\<rparr>)))
     = Inr [''1. v?'', ''2. w?'', ''3. x?'', ''4. y?'', ''5. z?'']
   \<and> completions
        (snd (generate_questions (\<lambda>s. 8) (\<lambda>m. Inr ''1. v?\<newline>2. w?\<newline>3. x?\<newline>4. y?\<newline>5. z?'') 200
         \<lparr>job_desc = \<lparr>title = ''SRE'', description = ''On call''\<rparr>\<rparr>
         (snd (generate_questions (\<lambda>s. 7) (\<lambda>m. Inr ''1. a?\<newline>2. b?\<newline>3. c?\<newline>4. d?\<newline>5. e?'') 100
            \<lparr>job_desc = \<lparr>title = ''SRE'', description = ''On call''\<rparr>\<rparr> \<lparr>store = [], completions = []\<rparr>))))
     = [question_messages \<lparr>title = ''SRE'', description = ''On call''\<rparr>,
        question_messages \<lparr>title = ''SRE'', description = ''On call''\<rparr>]
   \<and> store
        (snd (generate_questions (\<lambda>s. 8) (\<lambda>m. Inr ''1. v?\<newline>2. w?\<newline>3. x?\<newline>4. y?\<newline>5. z?'') 200
         \<lparr>job_desc = \<lparr>title = ''SRE'', description = ''On call''\<rparr>\<rparr>
         (snd (generate_questions (\<lambda>s. 7) (\<lambda>m. Inr ''1. a?\<newline>2. b?\<newline>3. c?\<newline>4. d?\<newline>5. e?'') 100
            \<lparr>job_desc = \<lparr>title = ''SRE'', description = ''On call''\<rparr>\<rparr> \<lparr>store = [], completions = []\<rparr>))))
     = [(''questions:7'', (py_str_list [''1. a?'', ''2. b?'', ''3. c?'', ''4. d?'', ''5. e?''], 3700)),
        (''questions:8'', (py_str_list [''1. v?'', ''2. w?'', ''3. x?'', ''4. y?'', ''5. z?''], 3800))]"
  by code_simp

text \<open>
  C10 fails on the code across interpreter processes: title \<^verbatim>\<open>ab\<close> with description
  \<^verbatim>\<open>c\<close> and title \<^verbatim>\<open>a\<close> with description \<^verbatim>\<open>bc\<close> concatenate to the same string,
  yet a process with another hash of that string computes another key. Its request, 100
  seconds after the first one succeeded, is not served the cached set: it calls the model,
  which here fails.
\<close>

theorem equal_concatenation_other_process_other_key:
  "title \<lparr>title = ''ab'', description = ''c''\<rparr> @ description \<lparr>title = ''ab'', description = ''c''\<rparr>
     = title \<lparr>title = ''a'', description = ''bc''\<rparr> @ description \<lparr>title = ''a'', description = ''bc''\<rparr>
   \<and> cache_key (\<lambda>s. 7) \<lparr>title = ''ab'', description = ''c''\<rparr> = ''questions:7''
   \<and> cache_key (\<lambda>s. 8) \<lparr>title = ''a'', description = ''bc''\<rparr> = ''questions:8''
   \<and> fst (generate_questions (\<lambda>s. 8) (\<lambda>m. Inl (UpstreamError ''unreachable'')) 200
         \<lparr>job_desc = \<lparr>title = ''a'', description = ''bc''\<rparr>\<rparr>
         (snd (generate_questions (\<lambda>s. 7) (\<lambda>m. Inr ''1. a?\<newline>2. b?\<newline>3. c?\<newline>4. d?\<newline>5. e?'') 100
            \<lparr>job_desc = \<lparr>title = ''ab'', description = ''c''\<rparr>\<rparr> \<lparr>store = [], completions = []\<rparr>)))
     = Inl (HTTPException 500 (StrOf (UpstreamError ''unreachable'')))
   \<and> completions
        (snd (generate_questions (\<lambda>s. 8) (\<lambda>m. Inl (UpstreamError ''unreachable'')) 200
         \<lparr>job_desc = \<lparr>title = ''a'', description = ''bc''\<rparr>\<rparr>
         (snd (generate_questions (\<lambda>s. 7) (\<lambda>m. Inr ''1. a?\<newline>2. b?\<newline>3. c?\<newline>4. d?\<newline>5. e?'') 100
            \<lparr>job_desc = \<lparr>title = ''ab'', description = ''c''\<rparr>\<rparr> \<lparr>store = [], completions = []\<rparr>))))
     = [question_messages \<lparr>title = ''ab'', description = ''c''\<rparr>,
        question_messages \<lparr>title = ''a'', description = ''bc''\<rparr>]"
  by code_simp

section \<open>Claims about analyze_responses\<close>



text \<open>
  C5 fails on the code for a fenced reply that ends with a newline. Line 207 removes
  the opening line; line 208 removes what follows the last newline, which is then the
  empty text, so the closing fence stays. \<^verbatim>\<open>json.loads\<close>, which gives the object at the
  JSON text and raises at the JSON text followed by the fence, makes the handler answer
  an \<^verbatim>\<open>HTTPException\<close> of status 500, while the same JSON without the fence lines is
  parsed and returned, whatever \<^verbatim>\<open>json.dumps\<close> is.
\<close>

theorem trailing_newline_keeps_closing_fence:
  "strip_fence ''```json\<newline>{\"technical_score\": 7, \"communication_score\": 8, \"overall_score\": 7, \"strengths\": [\"clear\"], \"improvements\": [\"depth\"], \"recommendations\": [\"practice\"]}\<newline>```\<newline>''
     = Inr ''{\"technical_score\": 7, \"communication_score\": 8, \"overall_score\": 7, \"strengths\": [\"clear\"], \"improvements\": [\"depth\"], \"recommendations\": [\"practice\"]}\<newline>```''
   \<and> (\<forall>dumps.
        fst (analyze_responses
              (\<lambda>s. if s = ''{\"technical_score\": 7, \"communication_score\": 8, \"overall_score\": 7, \"strengths\": [\"clear\"], \"improvements\": [\"depth\"], \"recommendations\": [\"practice\"]}''
                    then Inr (JDict [(''technical_score'', JInt 7), (''communication_score'', JInt 8),
                                     (''overall_score'', JInt 7), (''strengths'', JList [JStr ''clear'']),
                                     (''improvements'', JList [JStr ''depth'']),
                                     (''recommendations'', JList [JStr ''practice''])])
                    else Inl JSONDecodeError)
              dumps
              (\<lambda>m. Inr ''```json\<newline>{\"technical_score\": 7, \"communication_score\": 8, \"overall_score\": 7, \"strengths\": [\"clear\"], \"improvements\": [\"depth\"], \"recommendations\": [\"practice\"]}\<newline>```\<newline>'')
              \<lparr>answers = []\<rparr> \<lparr>store = [], completions = []\<rparr>)
          = Inl (HTTPException 500 (StrOf (HTTPException 500 (StrOf JSONDecodeError))))
        \<and> fst (analyze_responses
              (\<lambda>s. if s = ''{\"technical_score\": 7, \"communication_score\": 8, \"overall_score\": 7, \"strengths\": [\"clear\"], \"improvements\": [\"depth\"], \"recommendations\": [\"practice\"]}''
                    then Inr (JDict [(''technical_score'', JInt 7), (''communication_score'', JInt 8),
                                     (''overall_score'', JInt 7), (''strengths'', JList [JStr ''clear'']),
                                     (''improvements'', JList [JStr ''depth'']),
                                     (''recommendations'', JList [JStr ''practice''])])
                    else Inl JSONDecodeError)
              dumps
              (\<lambda>m. Inr ''{\"technical_score\": 7, \"communication_score\": 8, \"overall_score\": 7, \"strengths\": [\"clear\"], \"improvements\": [\"depth\"], \"recommendations\": [\"practice\"]}'')
              \<lparr>answers = []\<rparr> \<lparr>store = [], completions = []\<rparr>)
          = Inr (dumps (JDict [(''technical_score'', JInt 7), (''communication_score'', JInt 8),
                               (''overall_score'', JInt 7), (''strengths'', JList [JStr ''clear'']),
                               (''improvements'', JList [JStr ''depth'']),
                               (''recommendations'', JList [JStr ''practice''])])))"
proof (intro conjI allI)
  show "strip_fence ''```json\<newline>{\"technical_score\": 7, \"communication_score\": 8, \"overall_score\": 7, \"strengths\": [\"clear\"], \"improvements\": [\"depth\"], \"recommendations\": [\"practice\"]}\<newline>```\<newline>''
     = Inr ''{\"technical_score\": 7, \"communication_score\": 8, \"overall_score\": 7, \"strengths\": [\"clear\"], \"improvements\": [\"depth\"], \"recommendations\": [\"practice\"]}\<newline>```''"
    by code_simp
qed (simp_all add: analyze_responses_def analyze_responses_try_def analysis_messages_def
      parse_feedback_def strip_fence_def startswith_def fence_def after_first_newline_def
      before_last_newline_def nl_def list_keys_def Let_def)

text \<open>
  C6, as the code has it. The handler answers either an \<^verbatim>\<open>HTTPException\<close> of status
  500 or a result, and it answers a result exactly when the messages were rendered, the
  model answered, the fence was stripped, \<^verbatim>\<open>json.loads\<close> gave an object, and that
  object has the keys strengths, improvements and recommendations; the result is then
  the serialisation of the whole object after the wrapping of single strings. A failure
  of any of these steps is a 500 error. The presence of the three scores and the types
  of the fields are not among the conditions.
\<close>

theorem analyze_responses_error_or_whole_object:
  "((\<exists>out. fst (analyze_responses loads dumps llm responses w) = Inr out)
     \<or> (\<exists>d. fst (analyze_responses loads dumps llm responses w) = Inl (HTTPException 500 d)))
   \<and> (fst (analyze_responses loads dumps llm responses w) = Inr out \<longleftrightarrow>
        (\<exists>messages feedback stripped items items'.
           analysis_messages (answers responses) = Inr messages
           \<and> llm messages = Inr feedback
           \<and> strip_fence feedback = Inr stripped
           \<and> loads stripped = Inr (JDict items)
           \<and> map_of items ''strengths'' \<noteq> None
           \<and> map_of items ''improvements'' \<noteq> None
           \<and> map_of items ''recommendations'' \<noteq> None
           \<and> wrap_strings list_keys (JDict items) = Inr (JDict items')
           \<and> out = dumps (JDict items')))"
proof (intro conjI)
  show "(\<exists>out. fst (analyze_responses loads dumps llm responses w) = Inr out)
     \<or> (\<exists>d. fst (analyze_responses loads dumps llm responses w) = Inl (HTTPException 500 d))"
    by (rule analyze_responses_500)
next
  show "fst (analyze_responses loads dumps llm responses w) = Inr out \<longleftrightarrow>
        (\<exists>messages feedback stripped items items'.
           analysis_messages (answers responses) = Inr messages
           \<and> llm messages = Inr feedback
           \<and> strip_fence feedback = Inr stripped
           \<and> loads stripped = Inr (JDict items)
           \<and> map_of items ''strengths'' \<noteq> None
           \<and> map_of items ''improvements'' \<noteq> None
           \<and> map_of items ''recommendations'' \<noteq> None
           \<and> wrap_strings list_keys (JDict items) = Inr (JDict items')
           \<and> out = dumps (JDict items'))"
    (is "?l \<longleftrightarrow> ?r")
  proof
    assume ?l
    then obtain messages feedback stripped fj wrapped_json where
      m: "analysis_messages (answers responses) = Inr messages" "llm messages = Inr feedback"
        "strip_fence feedback = Inr stripped" "loads stripped = Inr fj"
        "wrap_strings list_keys fj = Inr wrapped_json" "out = dumps wrapped_json"
      unfolding analyze_responses_Inr parse_feedback_Inr by blast
    from list_keys_dict [OF m(5)] obtain items items' where
      "fj = JDict items" "wrapped_json = JDict items'" "\<forall>k \<in> set list_keys. map_of items k \<noteq> None"
      by blast
    with m show ?r by (auto simp: list_keys_def)
  next
    assume ?r
    then show ?l unfolding analyze_responses_Inr parse_feedback_Inr by blast
  qed
qed

theorem analyze_responses_error_or_whole_object_witness:
  "fst (analyze_responses
          (\<lambda>s. Inr (JDict [(''strengths'', JInt 5), (''improvements'', JList []),
                           (''recommendations'', JList [])]))
          (\<lambda>j. case j of JDict items \<Rightarrow> concat (map fst items) | _ \<Rightarrow> [])
          (\<lambda>m. Inr ''{}'') \<lparr>answers = []\<rparr> \<lparr>store = [], completions = []\<rparr>)
     = Inr ''strengthsimprovementsrecommendations''"
proof -
  let ?items = "[(''strengths'', JInt 5), (''improvements'', JList []), (''recommendations'', JList [])]"
  let ?loads = "\<lambda>s :: string. (Inr (JDict ?items) :: exn + json)"
  let ?dumps = "\<lambda>j. case j of JDict items \<Rightarrow> concat (map fst items) | _ \<Rightarrow> []"
  let ?llm = "\<lambda>m :: message list. (Inr ''{}'' :: exn + string)"
  let ?messages = "[\<lparr>role = ''system'', content = SYSTEM_PROMPT\<rparr>,
                    \<lparr>role = ''user'', content = analysis_header @ join [nl] [] @ analysis_footer\<rparr>]"
  have 1: "analysis_messages (answers \<lparr>answers = []\<rparr>) = Inr ?messages"
    by (simp add: analysis_messages_def)
  have 3: "strip_fence ''{}'' = Inr ''{}''" by code_simp
  have 5: "wrap_strings list_keys (JDict ?items) = Inr (JDict ?items)"
    by (simp add: list_keys_def)
  have "\<exists>messages feedback stripped items items'.
           analysis_messages (answers \<lparr>answers = []\<rparr>) = Inr messages
           \<and> ?llm messages = Inr feedback
           \<and> strip_fence feedback = Inr stripped
           \<and> ?loads stripped = Inr (JDict items)
           \<and> map_of items ''strengths'' \<noteq> None
           \<and> map_of items ''improvements'' \<noteq> None
           \<and> map_of items ''recommendations'' \<noteq> None
           \<and> wrap_strings list_keys (JDict items) = Inr (JDict items')
           \<and> ''strengthsimprovementsrecommendations'' = ?dumps (JDict items')"
    apply (rule exI [of _ ?messages])
    apply (rule exI [of _ "''{}''"])
    apply (rule exI [of _ "''{}''"])
    apply (rule exI [of _ ?items])
    apply (rule exI [of _ ?items])
    using 1 3 5 by simp
  with analyze_responses_error_or_whole_object [of ?loads ?dumps ?llm "\<lparr>answers = []\<rparr>"
      "\<lparr>store = [], completions = []\<rparr>" "''strengthsimprovementsrecommendations''"]
  show ?thesis by blast
qed

text \<open>
  C6, as the specification words it, fails: an object without the three scores, with a
  number for strengths, passes the loop of lines 214 to 216 unchanged and is returned.
\<close>

theorem partial_object_returned_counterexample:
  "wrap_strings list_keys
     (JDict [(''strengths'', JInt 5), (''improvements'', JList []), (''recommendations'', JList [])])
   = Inr (JDict [(''strengths'', JInt 5), (''improvements'', JList []), (''recommendations'', JList [])])
   \<and> map_of [(''strengths'', JInt 5), (''improvements'', JList []), (''recommendations'', JList [])]
        ''technical_score'' = None
   \<and> \<not> feedback_report
        (JDict [(''strengths'', JInt 5), (''improvements'', JList []), (''recommendations'', JList [])])"
  by (simp add: list_keys_def feedback_report_def int_score_def)

text \<open>
  C7, as the code has it. Every report returned is the serialisation of an object that
  has strengths, improvements and recommendations, none of them a bare string; its
  fields are those of the object the model gave, single strings of the three fields
  wrapped. It satisfies the declared schema exactly when the model's object has integer
  scores from 0 to 10 and, for each of the three fields, a sequence of strings or a single
  string: the handler checks neither the scores nor the elements.
\<close>

theorem returned_report_shape:
  assumes "fst (analyze_responses loads dumps llm responses w) = Inr out"
  shows "\<exists>messages feedback stripped items items'.
           analysis_messages (answers responses) = Inr messages
           \<and> llm messages = Inr feedback
           \<and> strip_fence feedback = Inr stripped
           \<and> loads stripped = Inr (JDict items)
           \<and> out = dumps (JDict items')
           \<and> (\<forall>k \<in> set list_keys. \<exists>v. map_of items' k = Some v \<and> \<not> is_string v)
           \<and> (\<forall>k. map_of items' k = (if k \<in> set list_keys then map_option wrapped (map_of items k)
                                      else map_of items k))
           \<and> (feedback_report (JDict items') \<longleftrightarrow>
                int_score (map_of items ''technical_score'')
                \<and> int_score (map_of items ''communication_score'')
                \<and> int_score (map_of items ''overall_score'')
                \<and> string_list (map_option wrapped (map_of items ''strengths''))
                \<and> string_list (map_option wrapped (map_of items ''improvements''))
                \<and> string_list (map_option wrapped (map_of items ''recommendations'')))"
proof -
  from assms obtain messages feedback stripped fj wrapped_json where
    m: "analysis_messages (answers responses) = Inr messages" "llm messages = Inr feedback"
      "strip_fence feedback = Inr stripped" "loads stripped = Inr fj"
      "wrap_strings list_keys fj = Inr wrapped_json" "out = dumps wrapped_json"
    unfolding analyze_responses_Inr parse_feedback_Inr by blast
  from list_keys_dict [OF m(5)] obtain items items' where
    i: "fj = JDict items" "wrapped_json = JDict items'"
      "\<forall>k \<in> set list_keys. map_of items k \<noteq> None"
      "\<forall>k. map_of items' k = (if k \<in> set list_keys then map_option wrapped (map_of items k) else map_of items k)"
    by blast
  have present: "\<forall>k \<in> set list_keys. \<exists>v. map_of items' k = Some v \<and> \<not> is_string v"
    using i(3,4) not_string_wrapped by auto
  have schema: "feedback_report (JDict items') \<longleftrightarrow>
                int_score (map_of items ''technical_score'')
                \<and> int_score (map_of items ''communication_score'')
                \<and> int_score (map_of items ''overall_score'')
                \<and> string_list (map_option wrapped (map_of items ''strengths''))
                \<and> string_list (map_option wrapped (map_of items ''improvements''))
                \<and> string_list (map_option wrapped (map_of items ''recommendations''))"
    by (simp add: feedback_report_def i(4) list_keys_def)
  from m i present schema show ?thesis by blast
qed

theorem returned_report_shape_witness:
  "fst (analyze_responses
          (\<lambda>s. Inr (JDict [(''technical_score'', JInt 11), (''strengths'', JStr ''clear''),
                           (''improvements'', JList []), (''recommendations'', JList [])]))
          (\<lambda>j. case j of JDict items \<Rightarrow> concat (map fst items) | _ \<Rightarrow> [])
          (\<lambda>m. Inr ''{}'') \<lparr>answers = []\<rparr> \<lparr>store = [], completions = []\<rparr>)
     = Inr ''technical_scorestrengthsimprovementsrecommendations''
   \<and> (\<exists>items'. ''technical_scorestrengthsimprovementsrecommendations'' = concat (map fst items')
         \<and> (\<exists>v. map_of items' ''strengths'' = Some v \<and> \<not> is_string v)
         \<and> \<not> feedback_report (JDict items'))"
proof -
  let ?items = "[(''technical_score'', JInt 11), (''strengths'', JStr ''clear''),
                 (''improvements'', JList []), (''recommendations'', JList [])]"
  let ?loads = "\<lambda>s :: string. (Inr (JDict ?items) :: exn + json)"
  let ?dumps = "\<lambda>j. case j of JDict items \<Rightarrow> concat (map fst items) | _ \<Rightarrow> []"
  let ?llm = "\<lambda>m :: message list. (Inr ''{}'' :: exn + string)"
  have a: "fst (analyze_responses ?loads ?dumps ?llm \<lparr>answers = []\<rparr> \<lparr>store = [], completions = []\<rparr>)
           = Inr ''technical_scorestrengthsimprovementsrecommendations''"
    by (simp add: analyze_responses_def analyze_responses_try_def analysis_messages_def
        parse_feedback_def strip_fence_def startswith_def fence_def list_keys_def Let_def)
  from returned_report_shape [OF a] obtain items items' where
    i: "(Inr (JDict ?items) :: exn + json) = Inr (JDict items)"
      "''technical_scorestrengthsimprovementsrecommendations'' = ?dumps (JDict items')"
      "\<forall>k \<in> set list_keys. \<exists>v. map_of items' k = Some v \<and> \<not> is_string v"
      "feedback_report (JDict items') \<longleftrightarrow>
                int_score (map_of items ''technical_score'')
                \<and> int_score (map_of items ''communication_score'')
                \<and> int_score (map_of items ''overall_score'')
                \<and> string_list (map_option wrapped (map_of items ''strengths''))
                \<and> string_list (map_option wrapped (map_of items ''improvements''))
                \<and> string_list (map_option wrapped (map_of items ''recommendations''))"
    by (elim exE conjE) blast
  from i(1) have e: "items = ?items" by simp
  from i(4) e have "\<not> feedback_report (JDict items')"
    by (simp add: int_score_def)
  moreover from i(3) have "\<exists>v. map_of items' ''strengths'' = Some v \<and> \<not> is_string v"
    by (simp add: list_keys_def)
  ultimately show ?thesis using a i(2) by auto
qed

text \<open>
  C7, as the specification words it, fails: a score of 11, a score that is a string and
  a sequence holding a number pass the loop and are returned.
\<close>

theorem score_out_of_range_counterexample:
  "wrap_strings list_keys
     (JDict [(''technical_score'', JInt 11), (''communication_score'', JStr ''high''),
             (''overall_score'', JInt 7), (''strengths'', JStr ''clear''),
             (''improvements'', JList [JInt 1]), (''recommendations'', JList [])])
   = Inr (JDict [(''technical_score'', JInt 11), (''communication_score'', JStr ''high''),
                 (''overall_score'', JInt 7), (''strengths'', JList [JStr ''clear'']),
                 (''improvements'', JList [JInt 1]), (''recommendations'', JList [])])
   \<and> \<not> feedback_report
        (JDict [(''technical_score'', JInt 11), (''communication_score'', JStr ''high''),
                (''overall_score'', JInt 7), (''strengths'', JList [JStr ''clear'']),
                (''improvements'', JList [JInt 1]), (''recommendations'', JList [])])"
  by (simp add: list_keys_def feedback_report_def int_score_def)

text \<open>
  C9. For answers that each hold a question and an answer, the one call to the
  completion client carries the system prompt and a user prompt made of the header, the
  blocks of the pairs joined by newlines in the order given, and the footer; each block
  is the question followed by the answer, and the block of an earlier pair stands before
  the block of a later one.
\<close>

theorem transcript_in_caller_order:
  assumes "list_all2 (\<lambda>resp qa. map_of resp ''question'' = Some (fst qa)
                               \<and> map_of resp ''answer'' = Some (snd qa)) (answers responses) pairs"
  shows "completions (snd (analyze_responses loads dumps llm responses w))
           = completions w @
             [[\<lparr>role = ''system'', content = SYSTEM_PROMPT\<rparr>,
               \<lparr>role = ''user'', content =
                  analysis_header @ join [nl] (map qa_block pairs) @ analysis_footer\<rparr>]]
       \<and> (\<forall>i j. i < j \<and> j < length pairs \<longrightarrow>
             (\<exists>pre mid post. join [nl] (map qa_block pairs)
                = pre @ qa_block (pairs ! i) @ mid @ qa_block (pairs ! j) @ post))"
proof (intro conjI allI impI)
  have "analysis_messages (answers responses)
          = Inr [\<lparr>role = ''system'', content = SYSTEM_PROMPT\<rparr>,
                 \<lparr>role = ''user'', content =
                    analysis_header @ join [nl] (map qa_block pairs) @ analysis_footer\<rparr>]"
    using render_all_pairs [OF assms] by (simp add: analysis_messages_def)
  then show "completions (snd (analyze_responses loads dumps llm responses w))
           = completions w @
             [[\<lparr>role = ''system'', content = SYSTEM_PROMPT\<rparr>,
               \<lparr>role = ''user'', content =
                  analysis_header @ join [nl] (map qa_block pairs) @ analysis_footer\<rparr>]]"
    by (rule analyze_responses_log)
next
  fix i j
  assume ij: "i < j \<and> j < length pairs"
  then have "\<exists>pre mid post. join [nl] (map qa_block pairs)
               = pre @ map qa_block pairs ! i @ mid @ map qa_block pairs ! j @ post"
    by (intro join_order) simp_all
  with ij show "\<exists>pre mid post. join [nl] (map qa_block pairs)
                = pre @ qa_block (pairs ! i) @ mid @ qa_block (pairs ! j) @ post"
    by simp
qed

theorem transcript_in_caller_order_witness:
  "list_all2 (\<lambda>resp qa. map_of resp ''question'' = Some (fst qa) \<and> map_of resp ''answer'' = Some (snd qa))
     [[(''question'', ''Why?''), (''answer'', ''Because.'')],
      [(''answer'', ''Never.''), (''question'', ''When?'')]]
     [(''Why?'', ''Because.''), (''When?'', ''Never.'')]
   \<and> completions (snd (analyze_responses (\<lambda>s. Inl JSONDecodeError) (\<lambda>j. []) (\<lambda>m. Inl (UpstreamError ''down''))
        \<lparr>answers = [[(''question'', ''Why?''), (''answer'', ''Because.'')],
                    [(''answer'', ''Never.''), (''question'', ''When?'')]]\<rparr>
        \<lparr>store = [], completions = []\<rparr>))
     = [[\<lparr>role = ''system'', content = SYSTEM_PROMPT\<rparr>,
         \<lparr>role = ''user'', content =
            analysis_header @ ''Q: Why?\<newline>A: Because.\<newline>\<newline>Q: When?\<newline>A: Never.\<newline>'' @ analysis_footer\<rparr>]]"
proof -
  have h: "list_all2 (\<lambda>resp qa. map_of resp ''question'' = Some (fst qa) \<and> map_of resp ''answer'' = Some (snd qa))
     (answers \<lparr>answers = [[(''question'', ''Why?''), (''answer'', ''Because.'')],
                          [(''answer'', ''Never.''), (''question'', ''When?'')]]\<rparr>)
     [(''Why?'', ''Because.''), (''When?'', ''Never.'')]"
    by simp
  have j: "join [nl] (map qa_block [(''Why?'', ''Because.''), (''When?'', ''Never.'')])
           = ''Q: Why?\<newline>A: Because.\<newline>\<newline>Q: When?\<newline>A: Never.\<newline>''"
    by (simp add: qa_block_def nl_def)
  from transcript_in_caller_order [OF h, of "\<lambda>s. Inl JSONDecodeError" "\<lambda>j. []"
      "\<lambda>m. Inl (UpstreamError ''down'')" "\<lparr>store = [], completions = []\<rparr>"] h
  show ?thesis unfolding j by simp
qed

section \<open>Claims about rate limiting\<close>

text \<open>
  C8. A client address with no open window sends six requests to one endpoint, the last
  five less than 60 seconds after the first. The first five are let through: each answer
  is the handler's own, run on the state the request before left. The sixth is answered
  \<^verbatim>\<open>RateLimitExceeded\<close>, status 429, and the state of store and completion log after it
  is the state the fifth left: the handler is not run, so there is no cache read, no model
  call and no cache write. The same holds of both endpoints.
\<close>

theorem sixth_request_in_window_rejected:
  assumes "\<forall>route. \<not> window_open t1 lim (address, route)"
    and "t2 < t1 + 60" and "t3 < t1 + 60" and "t4 < t1 + 60" and "t5 < t1 + 60" and "t6 < t1 + 60"
  shows "(let g1 = generate_questions h l1 t1 q1; g2 = generate_questions h l2 t2 q2;
              g3 = generate_questions h l3 t3 q3; g4 = generate_questions h l4 t4 q4;
              g5 = generate_questions h l5 t5 q5;
              w1 = snd (g1 w); w2 = snd (g2 w1); w3 = snd (g3 w2); w4 = snd (g4 w3);
              w5 = snd (g5 w4)
          in \<exists>lim'. run [post_generate_questions h l1 t1 address q1,
                          post_generate_questions h l2 t2 address q2,
                          post_generate_questions h l3 t3 address q3,
                          post_generate_questions h l4 t4 address q4,
                          post_generate_questions h l5 t5 address q5,
                          post_generate_questions h l6 t6 address q6] (lim, w)
                    = ([fst (g1 w), fst (g2 w1), fst (g3 w2), fst (g4 w3), fst (g5 w4),
                        Inl RateLimitExceeded], (lim', w5)))
       \<and> (let a1 = analyze_responses loads dumps l1 r1; a2 = analyze_responses loads dumps l2 r2;
              a3 = analyze_responses loads dumps l3 r3; a4 = analyze_responses loads dumps l4 r4;
              a5 = analyze_responses loads dumps l5 r5;
              w1 = snd (a1 w); w2 = snd (a2 w1); w3 = snd (a3 w2); w4 = snd (a4 w3);
              w5 = snd (a5 w4)
          in \<exists>lim'. run [post_analyze_responses loads dumps l1 t1 address r1,
                          post_analyze_responses loads dumps l2 t2 address r2,
                          post_analyze_responses loads dumps l3 t3 address r3,
                          post_analyze_responses loads dumps l4 t4 address r4,
                          post_analyze_responses loads dumps l5 t5 address r5,
                          post_analyze_responses loads dumps l6 t6 address r6] (lim, w)
                    = ([fst (a1 w), fst (a2 w1), fst (a3 w2), fst (a4 w3), fst (a5 w4),
                        Inl RateLimitExceeded], (lim', w5)))
       \<and> status_code (Inl RateLimitExceeded :: exn + string list) = 429
       \<and> status_code (Inl RateLimitExceeded :: exn + string) = 429"
proof -
  from assms(1) have g: "\<not> window_open t1 lim (address, ''generate_questions'')"
    and a: "\<not> window_open t1 lim (address, ''analyze_responses'')"
    by blast+
  show ?thesis
    unfolding Let_def post_generate_questions_def post_analyze_responses_def
  proof (intro conjI)
    show "status_code (Inl RateLimitExceeded :: exn + string list) = 429" by simp
    show "status_code (Inl RateLimitExceeded :: exn + string) = 429" by simp
  qed (rule six_limited [OF g assms(2-6)], rule six_limited [OF a assms(2-6)])
qed

theorem sixth_request_in_window_rejected_witness:
  "(\<forall>route. \<not> window_open 0 [] (''10.0.0.7'', route))
   \<and> (\<exists>lim'. run [post_generate_questions (\<lambda>s. 7) (\<lambda>m. Inl (UpstreamError ''down'')) 0 ''10.0.0.7''
                      \<lparr>job_desc = \<lparr>title = ''SRE'', description = ''On call''\<rparr>\<rparr>,
                    post_generate_questions (\<lambda>s. 7) (\<lambda>m. Inl (UpstreamError ''down'')) 10 ''10.0.0.7''
                      \<lparr>job_desc = \<lparr>title = ''SRE'', description = ''On call''\<rparr>\<rparr>,
                    post_generate_questions (\<lambda>s. 7) (\<lambda>m. Inl (UpstreamError ''down'')) 20 ''10.0.0.7''
                      \<lparr>job_desc = \<lparr>title = ''SRE'', description = ''On call''\<rparr>\<rparr>,
                    post_generate_questions (\<lambda>s. 7) (\<lambda>m. Inl (UpstreamError ''down'')) 30 ''10.0.0.7''
                      \<lparr>job_desc = \<lparr>title = ''SRE'', description = ''On call''\<rparr>\<rparr>,
                    post_generate_questions (\<lambda>s. 7) (\<lambda>m. Inl (UpstreamError ''down'')) 40 ''10.0.0.7''
                      \<lparr>job_desc = \<lparr>title = ''SRE'', description = ''On call''\<rparr>\<rparr>,
                    post_generate_questions (\<lambda>s. 7) (\<lambda>m. Inl (UpstreamError ''down'')) 59 ''10.0.0.7''
                      \<lparr>job_desc = \<lparr>title = ''SRE'', description = ''On call''\<rparr>\<rparr>]
                 ([], \<lparr>store = [], completions = []\<rparr>)
               = ([Inl (HTTPException 500 (StrOf (UpstreamError ''down''))),
                   Inl (HTTPException 500 (StrOf (UpstreamError ''down''))),
                   Inl (HTTPException 500 (StrOf (UpstreamError ''down''))),
                   Inl (HTTPException 500 (StrOf (UpstreamError ''down''))),
                   Inl (HTTPException 500 (StrOf (UpstreamError ''down''))),
                   Inl RateLimitExceeded],
                  (lim', \<lparr>store = [],
                          completions = replicate 5
                            (question_messages \<lparr>title = ''SRE'', description = ''On call''\<rparr>)\<rparr>)))"
proof -
  have f: "\<forall>route. \<not> window_open 0 [] (''10.0.0.7'', route)"
    by (simp add: window_open_def)
  have g: "\<And>now w. generate_questions (\<lambda>s. 7) (\<lambda>m. Inl (UpstreamError ''down'')) now
               \<lparr>job_desc = \<lparr>title = ''SRE'', description = ''On call''\<rparr>\<rparr> \<lparr>store = [], completions = w\<rparr>
             = (Inl (HTTPException 500 (StrOf (UpstreamError ''down''))),
                \<lparr>store = [],
                 completions = w @ [question_messages \<lparr>title = ''SRE'', description = ''On call''\<rparr>]\<rparr>)"
    by (simp add: generate_questions_def generate_questions_try_def redis_get_def Let_def)
  have r: "replicate 5 (question_messages \<lparr>title = ''SRE'', description = ''On call''\<rparr>)
           = [question_messages \<lparr>title = ''SRE'', description = ''On call''\<rparr>,
              question_messages \<lparr>title = ''SRE'', description = ''On call''\<rparr>,
              question_messages \<lparr>title = ''SRE'', description = ''On call''\<rparr>,
              question_messages \<lparr>title = ''SRE'', description = ''On call''\<rparr>,
              question_messages \<lparr>title = ''SRE'', description = ''On call''\<rparr>]"
    by (simp add: numeral_eq_Suc)
  have t: "(10::nat) < 0 + 60" "(20::nat) < 0 + 60" "(30::nat) < 0 + 60" "(40::nat) < 0 + 60"
    "(59::nat) < 0 + 60"
    by simp_all
  from sixth_request_in_window_rejected [OF f t, THEN conjunct1,
      of "\<lambda>s. 7" "\<lambda>m. Inl (UpstreamError ''down'')"
         "\<lparr>job_desc = \<lparr>title = ''SRE'', description = ''On call''\<rparr>\<rparr>"
         "\<lambda>m. Inl (UpstreamError ''down'')"
         "\<lparr>job_desc = \<lparr>title = ''SRE'', description = ''On call''\<rparr>\<rparr>"
         "\<lambda>m. Inl (UpstreamError ''down'')"
         "\<lparr>job_desc = \<lparr>title = ''SRE'', description = ''On call''\<rparr>\<rparr>"
         "\<lambda>m. Inl (UpstreamError ''down'')"
         "\<lparr>job_desc = \<lparr>title = ''SRE'', description = ''On call''\<rparr>\<rparr>"
         "\<lambda>m. Inl (UpstreamError ''down'')"
         "\<lparr>job_desc = \<lparr>title = ''SRE'', description = ''On call''\<rparr>\<rparr>"
         "\<lparr>store = [], completions = []\<rparr>"
         "\<lambda>m. Inl (UpstreamError ''down'')"
         "\<lparr>job_desc = \<lparr>title = ''SRE'', description = ''On call''\<rparr>\<rparr>"]
  have "\<exists>lim'. run [post_generate_questions (\<lambda>s. 7) (\<lambda>m. Inl (UpstreamError ''down'')) 0 ''10.0.0.7''
                      \<lparr>job_desc = \<lparr>title = ''SRE'', description = ''On call''\<rparr>\<rparr>,
                    post_generate_questions (\<lambda>s. 7) (\<lambda>m. Inl (UpstreamError ''down'')) 10 ''10.0.0.7''
                      \<lparr>job_desc = \<lparr>title = ''SRE'', description = ''On call''\<rparr>\<rparr>,
                    post_generate_questions (\<lambda>s. 7) (\<lambda>m. Inl (UpstreamError ''down'')) 20 ''10.0.0.7''
                      \<lparr>job_desc = \<lparr>title = ''SRE'', description = ''On call''\<rparr>\<rparr>,
                    post_generate_questions (\<lambda>s. 7) (\<lambda>m. Inl (UpstreamError ''down'')) 30 ''10.0.0.7''
                      \<lparr>job_desc = \<lparr>title = ''SRE'', description = ''On call''\<rparr>\<rparr>,
                    post_generate_questions (\<lambda>s. 7) (\<lambda>m. Inl (UpstreamError ''down'')) 40 ''10.0.0.7''
                      \<lparr>job_desc = \<lparr>title = ''SRE'', description = ''On call''\<rparr>\<rparr>,
                    post_generate_questions (\<lambda>s. 7) (\<lambda>m. Inl (UpstreamError ''down'')) 59 ''10.0.0.7''
                      \<lparr>job_desc = \<lparr>title = ''SRE'', description = ''On call''\<rparr>\<rparr>]
                 ([], \<lparr>store = [], completions = []\<rparr>)
               = ([Inl (HTTPException 500 (StrOf (UpstreamError ''down''))),
                   Inl (HTTPException 500 (StrOf (UpstreamError ''down''))),
                   Inl (HTTPException 500 (StrOf (UpstreamError ''down''))),
                   Inl (HTTPException 500 (StrOf (UpstreamError ''down''))),
                   Inl (HTTPException 500 (StrOf (UpstreamError ''down''))),
                   Inl RateLimitExceeded],
                  (lim', \<lparr>store = [],
                          completions = replicate 5
                            (question_messages \<lparr>title = ''SRE'', description = ''On call''\<rparr>)\<rparr>))"
    by (simp add: Let_def g r del: run.simps)
  with f show ?thesis by blast
qed

end
